theory Spec2Isabelle
  imports Complex_Main "HOL-Library.Word"
begin

section \<open>Strings\<close>

text \<open>
  A JavaScript string is a sequence of UTF-16 code units. The regular expressions of
  \<^verbatim>\<open>srcclr.ts\<close> have no \<^verbatim>\<open>u\<close> flag, and \<^verbatim>\<open>trim\<close> and \<^verbatim>\<open>startsWith\<close> work on code units
  too, so a string is modelled as the list of its code units. \<open>js\<close> writes an ASCII
  literal of the source as such a list.
\<close>

type_synonym jschar = "16 word"
type_synonym jsstring = "jschar list"

definition js :: "string \<Rightarrow> jsstring" where
  "js s = map of_char s"

text \<open>
  The characters of \<^verbatim>\<open>\s\<close> and the ones \<^verbatim>\<open>String.prototype.trim\<close> strips: ECMAScript's
  WhiteSpace (TAB, VT, FF, SP, NBSP, ZWNBSP and the category Zs) and LineTerminator
  (LF, CR, LS, PS).
\<close>

definition isSpace :: "jschar \<Rightarrow> bool" where
  "isSpace c =
     (c = 0x09 \<or> c = 0x0A \<or> c = 0x0B \<or> c = 0x0C \<or> c = 0x0D \<or> c = 0x20 \<or> c = 0xA0 \<or>
      c = 0x1680 \<or> (0x2000 \<le> c \<and> c \<le> 0x200A) \<or> c = 0x2028 \<or> c = 0x2029 \<or>
      c = 0x202F \<or> c = 0x205F \<or> c = 0x3000 \<or> c = 0xFEFF)"

text \<open>\<^verbatim>\<open>s.trim()\<close>: white space is removed from both ends.\<close>

definition trim :: "jsstring \<Rightarrow> jsstring" where
  "trim s = rev (dropWhile isSpace (rev (dropWhile isSpace s)))"

text \<open>\<^verbatim>\<open>s.startsWith(p)\<close>\<close>

definition startsWith :: "jsstring \<Rightarrow> jsstring \<Rightarrow> bool" where
  "startsWith s p = (take (length p) s = p)"

section \<open>Regular expressions\<close>

text \<open>
  The patterns of \<^verbatim>\<open>extractScanUrl\<close> are sequences of single characters, character
  classes, greedy \<^verbatim>\<open>+\<close> and \<^verbatim>\<open>?\<close> on one character or class, and one capture group.
  All of them carry the flag \<^verbatim>\<open>i\<close>.
\<close>

datatype member = Ch jschar | WhiteSpace

datatype atom =
    Char jschar             \<comment> \<open>a pattern character\<close>
  | Esc_s                   \<comment> \<open>\<^verbatim>\<open>\s\<close>\<close>
  | Esc_S                   \<comment> \<open>\<^verbatim>\<open>\S\<close>\<close>
  | Set "member list"       \<comment> \<open>\<^verbatim>\<open>[...]\<close>\<close>
  | NotSet "member list"    \<comment> \<open>\<^verbatim>\<open>[^...]\<close>\<close>

datatype item =
    One atom
  | Plus atom               \<comment> \<open>\<^verbatim>\<open>a+\<close>, greedy\<close>
  | Opt atom                \<comment> \<open>\<^verbatim>\<open>a?\<close>, greedy\<close>
  | GroupOpen               \<comment> \<open>\<^verbatim>\<open>(\<close>\<close>
  | GroupClose              \<comment> \<open>\<^verbatim>\<open>)\<close>\<close>

type_synonym regex = "item list"

text \<open>
  ECMAScript's Canonicalize for a pattern without the \<^verbatim>\<open>u\<close> flag maps a code unit to
  its upper case, except that a code unit from 128 on is never mapped below 128. Every
  character of the patterns here is below 128, so the model maps the ASCII letters and
  leaves the other code units alone: a code unit from 128 on then equals no pattern
  character, as in ECMAScript. No character has a white space character as its upper
  case, so the classes with \<^verbatim>\<open>\s\<close> are the same with and without the flag.
\<close>

definition canonicalize :: "jschar \<Rightarrow> jschar" where
  "canonicalize c = (if 0x61 \<le> c \<and> c \<le> 0x7A then c - 0x20 else c)"

fun inMember :: "member \<Rightarrow> jschar \<Rightarrow> bool" where
  "inMember (Ch a) c = (canonicalize c = canonicalize a)"
| "inMember WhiteSpace c = isSpace c"

fun accepts :: "atom \<Rightarrow> jschar \<Rightarrow> bool" where
  "accepts (Char a) c = (canonicalize c = canonicalize a)"
| "accepts Esc_s c = isSpace c"
| "accepts Esc_S c = (\<not> isSpace c)"
| "accepts (Set ms) c = list_ex (\<lambda>m. inMember m c) ms"
| "accepts (NotSet ms) c = (\<not> list_ex (\<lambda>m. inMember m c) ms)"

text \<open>The state of capture group 1 during a match.\<close>

datatype capture = Unset | Recording jsstring | Captured jsstring

fun push :: "jschar \<Rightarrow> capture \<Rightarrow> capture" where
  "push x (Recording t) = Recording (t @ [x])"
| "push x c = c"

fun closeGroup :: "capture \<Rightarrow> capture" where
  "closeGroup (Recording t) = Captured t"
| "closeGroup c = c"

text \<open>
  The backtracking matcher at one start position: \<open>matchHere p s c\<close> matches the
  pattern \<open>p\<close> against a prefix of \<open>s\<close> and yields the capture of the first match
  in ECMAScript's order of alternatives (a greedy quantifier takes one more character
  before it tries the rest of the pattern), \<open>None\<close> when there is none.
\<close>

fun matchHere :: "regex \<Rightarrow> jsstring \<Rightarrow> capture \<Rightarrow> capture option" where
  "matchHere [] s c = Some c"
| "matchHere (GroupOpen # r) s c = matchHere r s (Recording [])"
| "matchHere (GroupClose # r) s c = matchHere r s (closeGroup c)"
| "matchHere (One a # r) [] c = None"
| "matchHere (One a # r) (x # xs) c =
     (if accepts a x then matchHere r xs (push x c) else None)"
| "matchHere (Opt a # r) [] c = matchHere r [] c"
| "matchHere (Opt a # r) (x # xs) c =
     (if accepts a x
      then (case matchHere r xs (push x c) of
              Some c' \<Rightarrow> Some c'
            | None \<Rightarrow> matchHere r (x # xs) c)
      else matchHere r (x # xs) c)"
| "matchHere (Plus a # r) [] c = None"
| "matchHere (Plus a # r) (x # xs) c =
     (if accepts a x
      then (case matchHere (Plus a # r) xs (push x c) of
              Some c' \<Rightarrow> Some c'
            | None \<Rightarrow> matchHere r xs (push x c))
      else None)"

text \<open>
  \<^verbatim>\<open>s.match(p)\<close> for a pattern without the \<^verbatim>\<open>g\<close> flag: the match at the leftmost start
  position that has one, or \<open>None\<close> for \<^verbatim>\<open>null\<close>.
\<close>

fun match :: "regex \<Rightarrow> jsstring \<Rightarrow> capture option" where
  "match p [] = matchHere p [] Unset"
| "match p (x # xs) =
     (case matchHere p (x # xs) Unset of
        Some c \<Rightarrow> Some c
      | None \<Rightarrow> match p xs)"

text \<open>\<^verbatim>\<open>match[1]\<close>: the text of group 1, \<open>None\<close> for \<^verbatim>\<open>undefined\<close>.\<close>

fun group1 :: "capture \<Rightarrow> jsstring option" where
  "group1 (Captured t) = Some t"
| "group1 c = None"

definition lit :: "string \<Rightarrow> regex" where
  "lit s = map (\<lambda>c. One (Char c)) (js s)"

text \<open>\<^verbatim>\<open>/Full\s+Report\s+Details/i\<close>\<close>

definition phrase :: regex where
  "phrase = lit ''Full'' @ [Plus Esc_s] @ lit ''Report'' @ [Plus Esc_s] @ lit ''Details''"

text \<open>\<^verbatim>\<open>https?:\/\/\<close>\<close>

definition scheme :: regex where
  "scheme = lit ''http'' @ [Opt (Char 0x73)] @ lit ''://''"

text \<open>
  The four patterns of \<^verbatim>\<open>extractScanUrl\<close>, in the order of the source:
  \<^verbatim>\<open>/Full\s+Report\s+Details\s+(https?:\/\/[^\s\r\n]+)/i\<close>,
  \<^verbatim>\<open>/Full\s+Report\s+Details[:\s]+(https?:\/\/[^\s\r\n]+)/i\<close>,
  \<^verbatim>\<open>/Full\s+Report\s+Details\s+(\S+)/i\<close>,
  \<^verbatim>\<open>/Full\s+Report\s+Details[:\s]+(https?:\/\/[^\r\n]+)/i\<close>.
\<close>

definition pattern1 :: regex where
  "pattern1 = phrase @ [Plus Esc_s, GroupOpen] @ scheme @
     [Plus (NotSet [WhiteSpace, Ch 0x0D, Ch 0x0A]), GroupClose]"

definition pattern2 :: regex where
  "pattern2 = phrase @ [Plus (Set [Ch 0x3A, WhiteSpace]), GroupOpen] @ scheme @
     [Plus (NotSet [WhiteSpace, Ch 0x0D, Ch 0x0A]), GroupClose]"

definition pattern3 :: regex where
  "pattern3 = phrase @ [Plus Esc_s, GroupOpen, Plus Esc_S, GroupClose]"

definition pattern4 :: regex where
  "pattern4 = phrase @ [Plus (Set [Ch 0x3A, WhiteSpace]), GroupOpen] @ scheme @
     [Plus (NotSet [Ch 0x0D, Ch 0x0A]), GroupClose]"

definition patterns :: "regex list" where
  "patterns = [pattern1, pattern2, pattern3, pattern4]"

section \<open>The sidecar file\<close>

text \<open>
  What \<^verbatim>\<open>JSON.parse\<close> returns: a JSON value. A number is the value it denotes; a
  number too large for a double is an infinity, which is truthy like every number but
  zero (a parsed number is never NaN). An object is the list of its own properties.
\<close>

datatype number = Finite rat | PosInfinity | NegInfinity

datatype json =
    JNull
  | JBool bool
  | JNum number
  | JStr jsstring
  | JArr "json list"
  | JObj "(jsstring \<times> json) list"

text \<open>
  The file at \<^verbatim>\<open>SCA_OUTPUT_FILE\<close> as \<^verbatim>\<open>extractScanUrl\<close> finds it: \<^verbatim>\<open>existsSync\<close> is
  false, or \<^verbatim>\<open>readFileSync\<close> throws, or \<^verbatim>\<open>JSON.parse\<close> throws a SyntaxError, or the
  content parses to a value. (\<^verbatim>\<open>SCA_OUTPUT_FILE\<close> is a constant of \<^verbatim>\<open>index.ts\<close>; the model
  takes it to be another file than \<^verbatim>\<open>scaResults.txt\<close>.)
\<close>

datatype sidecar = Missing | Unreadable | Malformed | Parsed json

datatype error = IOError | SyntaxError | TypeError

text \<open>A JavaScript value met while reading the parsed document: \<open>None\<close> is \<^verbatim>\<open>undefined\<close>.\<close>

type_synonym jsvalue = "json option"

fun truthy :: "jsvalue \<Rightarrow> bool" where
  "truthy None = False"
| "truthy (Some JNull) = False"
| "truthy (Some (JBool b)) = b"
| "truthy (Some (JNum n)) = (n \<noteq> Finite 0)"
| "truthy (Some (JStr s)) = (s \<noteq> [])"
| "truthy (Some (JArr xs)) = True"
| "truthy (Some (JObj ps)) = True"

text \<open>
  \<^verbatim>\<open>v.records\<close>, \<^verbatim>\<open>v.metadata\<close>, \<^verbatim>\<open>v.report\<close>: reading a property of \<^verbatim>\<open>null\<close> or
  \<^verbatim>\<open>undefined\<close> throws a TypeError; an object yields its own property; every other
  value yields \<^verbatim>\<open>undefined\<close>, since no prototype has a property of these names.
\<close>

fun getMember :: "jsvalue \<Rightarrow> jsstring \<Rightarrow> error + jsvalue" where
  "getMember None k = Inl TypeError"
| "getMember (Some JNull) k = Inl TypeError"
| "getMember (Some (JObj ps)) k = Inr (map_of ps k)"
| "getMember (Some v) k = Inr None"

text \<open>
  \<^verbatim>\<open>v[0]\<close>: the first element of an array, the first code unit of a string, the
  property \<^verbatim>\<open>"0"\<close> of an object.
\<close>

fun getIndex0 :: "jsvalue \<Rightarrow> error + jsvalue" where
  "getIndex0 None = Inl TypeError"
| "getIndex0 (Some JNull) = Inl TypeError"
| "getIndex0 (Some (JObj ps)) = Inr (map_of ps (js ''0''))"
| "getIndex0 (Some (JArr xs)) = Inr (case xs of [] \<Rightarrow> None | x # _ \<Rightarrow> Some x)"
| "getIndex0 (Some (JStr s)) = Inr (case s of [] \<Rightarrow> None | c # _ \<Rightarrow> Some (JStr [c]))"
| "getIndex0 (Some v) = Inr None"

fun andThen :: "error + 'a \<Rightarrow> ('a \<Rightarrow> error + 'b) \<Rightarrow> error + 'b" where
  "andThen (Inl e) f = Inl e"
| "andThen (Inr x) f = f x"

text \<open>
  The condition
  \<^verbatim>\<open>scaResJson.records && scaResJson.records[0] && scaResJson.records[0].metadata && scaResJson.records[0].metadata.report\<close>:
  \<open>Inr None\<close> when one of the four values is falsy, the value of
  \<^verbatim>\<open>records[0].metadata.report\<close> when all are truthy, \<open>Inl\<close> when an access throws.
\<close>

definition reportOf :: "json \<Rightarrow> error + jsvalue" where
  "reportOf scaResJson =
     andThen (getMember (Some scaResJson) (js ''records'')) (\<lambda>records.
       if \<not> truthy records then Inr None
       else andThen (getIndex0 records) (\<lambda>first.
         if \<not> truthy first then Inr None
         else andThen (getMember first (js ''metadata'')) (\<lambda>metadata.
           if \<not> truthy metadata then Inr None
           else andThen (getMember metadata (js ''report'')) (\<lambda>report.
             if \<not> truthy report then Inr None else Inr report))))"

section \<open>The state of a run\<close>

text \<open>The \<^verbatim>\<open>core.info\<close> lines of \<^verbatim>\<open>extractScanUrl\<close>, by the place that writes them.\<close>

datatype message =
    StartExtraction
  | OutputEmpty
  | OutputLength nat
  | PhraseFound bool
  | FoundLine jsstring
  | FoundUrl nat jsstring
  | NotUrl nat jsstring
  | TryJson
  | JsonExists
  | FoundInJson jsstring
  | NoReportInJson
  | JsonMissing
  | JsonError error
  | NoUrlFound
  | ExtractionComplete

datatype console = FileSaved | ErrorWritingFile

text \<open>
  The body of a comment on the pull request: the summary line, with the exit code of the
  scanner where the source puts it in, or the captured standard output in a
  \<^verbatim>\<open>details\<close> element, with the exit code where the source puts it in.
\<close>

datatype comment =
    Summary
  | SummaryWithCode "int option"
  | Details jsstring
  | DetailsWithCode "int option" jsstring

text \<open>
  What a run reads and writes: the sidecar file, the result file \<^verbatim>\<open>scaResults.txt\<close>
  (\<open>None\<close> when there is none), the diagnostics of \<^verbatim>\<open>extractScanUrl\<close>, the lines that
  \<^verbatim>\<open>console.log\<close> and \<^verbatim>\<open>console.error\<close> write about the result file, the action's output
  \<^verbatim>\<open>scan-url\<close> (\<^verbatim>\<open>core.setOutput\<close>), whether \<^verbatim>\<open>core.setFailed\<close> was called, the
  pull-request comments, the files uploaded as artifacts and the calls of \<^verbatim>\<open>run\<close> (which
  creates the issues). The \<^verbatim>\<open>core.info\<close> lines of \<^verbatim>\<open>runAction\<close> itself are left out.
\<close>

record world =
  sidecarFile :: sidecar
  resultFile :: "jsstring option"
  info :: "message list"
  consoleLines :: "console list"
  scanUrl :: "jsstring option"
  failed :: bool
  comments :: "comment list"
  artifacts :: "jsstring list"
  issueRuns :: nat

definition say :: "message list \<Rightarrow> world \<Rightarrow> world" where
  "say ms w = w\<lparr>info := info w @ ms\<rparr>"

section \<open>extractScanUrl\<close>

definition isUrl :: "jsstring \<Rightarrow> bool" where
  "isUrl url = (startsWith url (js ''http://'') \<or> startsWith url (js ''https://''))"

text \<open>\<^verbatim>\<open>output.split('\n')\<close>\<close>

fun splitLines :: "jsstring \<Rightarrow> jsstring list" where
  "splitLines [] = [[]]"
| "splitLines (c # cs) =
     (if c = 0x0A then [] # splitLines cs
      else (case splitLines cs of l # ls \<Rightarrow> (c # l) # ls | [] \<Rightarrow> [[c]]))"

text \<open>\<^verbatim>\<open>/Full\s+Report\s+Details/i.test(s)\<close>\<close>

definition hasPhrase :: "jsstring \<Rightarrow> bool" where
  "hasPhrase s = (match phrase s \<noteq> None)"

text \<open>The messages of lines 50 to 60: whether the phrase occurs, and the first line with it.\<close>

definition phraseMessages :: "jsstring \<Rightarrow> message list" where
  "phraseMessages output =
     PhraseFound (hasPhrase output) #
     (if hasPhrase output
      then (case find hasPhrase (splitLines output) of
              Some fullReportLine \<Rightarrow> [FoundLine (trim fullReportLine)]
            | None \<Rightarrow> [])
      else [])"

text \<open>
  The loop over the patterns (lines 62 to 75), from pattern number \<open>i\<close> (counted from 0)
  on: the first pattern whose group 1, trimmed, starts with \<^verbatim>\<open>http://\<close> or \<^verbatim>\<open>https://\<close>
  ends the loop with that text.
\<close>

fun tryPatterns :: "nat \<Rightarrow> regex list \<Rightarrow> jsstring \<Rightarrow> jsstring option \<times> message list" where
  "tryPatterns i [] output = (None, [])"
| "tryPatterns i (pattern # rest) output =
     (case Option.bind (match pattern output) group1 of
        None \<Rightarrow> tryPatterns (Suc i) rest output
      | Some m1 \<Rightarrow>
          if m1 = [] then tryPatterns (Suc i) rest output
          else if isUrl (trim m1) then (Some (trim m1), [FoundUrl (Suc i) (trim m1)])
          else (case tryPatterns (Suc i) rest output of
                  (r, ms) \<Rightarrow> (r, NotUrl (Suc i) (trim m1) # ms)))"

text \<open>
  The body of the \<^verbatim>\<open>try\<close> block (lines 81 to 96): \<open>Inr (Some url)\<close> when it returns
  \<open>url\<close>, \<open>Inr None\<close> when it runs to its end, \<open>Inl e\<close> when it throws. A report that
  is truthy and no string has no method \<^verbatim>\<open>startsWith\<close>: the call throws a TypeError.
\<close>

definition jsonFallback :: "sidecar \<Rightarrow> (error + jsstring option) \<times> message list" where
  "jsonFallback f =
     (case f of
        Missing \<Rightarrow> (Inr None, [JsonMissing])
      | Unreadable \<Rightarrow> (Inl IOError, [JsonExists])
      | Malformed \<Rightarrow> (Inl SyntaxError, [JsonExists])
      | Parsed scaResJson \<Rightarrow>
          (case reportOf scaResJson of
             Inl e \<Rightarrow> (Inl e, [JsonExists])
           | Inr None \<Rightarrow> (Inr None, [JsonExists, NoReportInJson])
           | Inr (Some (JStr url)) \<Rightarrow>
               if isUrl url then (Inr (Some url), [JsonExists, FoundInJson url])
               else (Inr None, [JsonExists])
           | Inr (Some v) \<Rightarrow> (Inl TypeError, [JsonExists])))"

text \<open>
  \<^verbatim>\<open>extractScanUrl(output)\<close> in a world \<open>w\<close>: the result (\<open>Inr None\<close> for \<^verbatim>\<open>null\<close>,
  \<open>Inl e\<close> for an exception that leaves the function) and the world after the call.
\<close>

definition extractScanUrl :: "jsstring \<Rightarrow> world \<Rightarrow> (error + jsstring option) \<times> world" where
  "extractScanUrl output w =
     (if output = [] then (Inr None, say [StartExtraction, OutputEmpty] w)
      else
        (case tryPatterns 0 patterns output of
           (Some url, ms) \<Rightarrow>
             (Inr (Some url),
              say ([StartExtraction, OutputLength (length output)] @ phraseMessages output @ ms) w)
         | (None, ms) \<Rightarrow>
             (let w1 = say ([StartExtraction, OutputLength (length output)] @
                            phraseMessages output @ ms @ [TryJson]) w
              in case jsonFallback (sidecarFile w1) of
                   (Inr (Some url), jm) \<Rightarrow> (Inr (Some url), say jm w1)
                 | (Inr None, jm) \<Rightarrow>
                     (Inr None, say (jm @ [NoUrlFound, ExtractionComplete]) w1)
                 | (Inl e, jm) \<Rightarrow>
                     (Inr None, say (jm @ [JsonError e, NoUrlFound, ExtractionComplete]) w1))))"

section \<open>cleanCollectors and the command line\<close>

text \<open>The allowlist \<^verbatim>\<open>collectors\<close> (lines 698 to 722).\<close>

definition collectors :: "jsstring list" where
  "collectors =
     [js ''maven'', js ''gradle'', js ''ant'', js ''jar'', js ''sbt'', js ''glide'',
      js ''go get'', js ''go mod'', js ''godep'', js ''dep'', js ''govendor'', js ''trash'',
      js ''pip'', js ''pipenv'', js ''bower'', js ''yarn'', js ''npm'', js ''cocoapods'',
      js ''gem'', js ''composer'', js ''makefile'', js ''dll'', js ''msbuilddotnet'']"

text \<open>\<^verbatim>\<open>xs.indexOf(x)\<close>: the first index of \<open>x\<close>, or \<open>-1\<close>.\<close>

fun indexOf :: "'a list \<Rightarrow> 'a \<Rightarrow> int" where
  "indexOf [] x = -1"
| "indexOf (y # ys) x =
     (if y = x then 0 else (let i = indexOf ys x in if i < 0 then -1 else i + 1))"

text \<open>
  \<^verbatim>\<open>String.prototype.toLowerCase\<close> maps by the case tables of Unicode, which are no part of
  the repository: the functions that call it take it as the parameter \<open>lower\<close>.
  \<open>lowerAscii\<close> is what it does on a text of ASCII characters.
\<close>

definition lowerAscii :: "jsstring \<Rightarrow> jsstring" where
  "lowerAscii s = map (\<lambda>c. if 0x41 \<le> c \<and> c \<le> 0x5A then c + 0x20 else c) s"

text \<open>
  The loop of \<^verbatim>\<open>cleanCollectors\<close> (lines 16 to 20) with the array \<open>allowed\<close> built so far;
  \<^verbatim>\<open>input &&\<close> is false for the empty string.
\<close>

fun cleanLoop :: "(jsstring \<Rightarrow> jsstring) \<Rightarrow> jsstring list \<Rightarrow> jsstring list \<Rightarrow> jsstring list" where
  "cleanLoop lower allowed [] = allowed"
| "cleanLoop lower allowed (input # rest) =
     (if input \<noteq> [] \<and> indexOf collectors (lower (trim input)) > -1
      then cleanLoop lower (allowed @ [lower (trim input)]) rest
      else cleanLoop lower allowed rest)"

definition cleanCollectors :: "(jsstring \<Rightarrow> jsstring) \<Rightarrow> jsstring list \<Rightarrow> jsstring list" where
  "cleanCollectors lower inputArr = cleanLoop lower [] inputArr"

text \<open>\<^verbatim>\<open>xs.toString()\<close> of an array of strings: the strings joined by commas.\<close>

fun toString :: "jsstring list \<Rightarrow> jsstring" where
  "toString [] = []"
| "toString [x] = x"
| "toString (x # y # ys) = x @ js '','' @ toString (y # ys)"

text \<open>The options of the action that \<^verbatim>\<open>runAction\<close> reads.\<close>

record options =
  optUrl :: jsstring
  optPath :: jsstring
  skipCollectors :: "jsstring list"
  scanCollectors :: "jsstring list"
  noGraphs :: bool
  skipVms :: bool
  createIssues :: bool
  optRecursive :: bool
  optQuick :: bool
  allowDirty :: bool
  updateAdvisor :: bool
  optDebug :: bool
  breakBuildOnPolicyFindings :: jsstring

text \<open>\<^verbatim>\<open>skipCollectorsAttr\<close> and \<^verbatim>\<open>scanCollectorsAttr\<close> (lines 118 to 128).\<close>

definition skipCollectorsAttr :: "(jsstring \<Rightarrow> jsstring) \<Rightarrow> options \<Rightarrow> jsstring" where
  "skipCollectorsAttr lower opts =
     (let skip = cleanCollectors lower (skipCollectors opts)
      in if length skip > 0 then js ''--skip-collectors '' @ toString skip @ js '' '' else [])"

definition scanCollectorsAttr :: "(jsstring \<Rightarrow> jsstring) \<Rightarrow> options \<Rightarrow> jsstring" where
  "scanCollectorsAttr lower opts =
     (let scan = cleanCollectors lower (scanCollectors opts)
      in if length scan > 0 then js ''--scan-collectors '' @ toString scan @ js '' '' else [])"

text \<open>\<^verbatim>\<open>extraCommands\<close> (lines 111 to 134), the part of the command line made of the options.\<close>

definition extraCommands :: "(jsstring \<Rightarrow> jsstring) \<Rightarrow> options \<Rightarrow> jsstring" where
  "extraCommands lower opts =
     (if length (optUrl opts) > 0 then js ''--url '' @ optUrl opts @ js '' ''
      else optPath opts @ js '' '') @
     (if optRecursive opts then js ''--recursive '' else []) @
     (if optQuick opts then js ''--quick '' else []) @
     (if allowDirty opts then js ''--allow-dirty '' else []) @
     (if updateAdvisor opts then js ''--update-advisor '' else []) @
     (if skipVms opts then js ''--skip-vms '' else []) @
     (if noGraphs opts then js ''--no-graphs '' else []) @
     (if optDebug opts then js ''--debug '' else []) @
     skipCollectorsAttr lower opts @ scanCollectorsAttr lower opts"

section \<open>runAction\<close>

text \<open>
  What the outside decides in a run: the runner (\<^verbatim>\<open>RUNNER_OS == 'Windows'\<close>), what the
  scanner writes to its two streams, in the order of arrival, the exit code of the scanner
  (\<open>None\<close> for \<^verbatim>\<open>null\<close>, a scanner ended by a signal), what \<^verbatim>\<open>writeFileSync\<close> does,
  whether \<^verbatim>\<open>GITHUB_REF\<close> names a pull request, and whether \<^verbatim>\<open>uploadArtifact\<close> throws. The
  scanner is a black box: the command line has no part in what the model takes it to write.
\<close>

datatype chunk = Stdout jsstring | Stderr jsstring

text \<open>
  \<^verbatim>\<open>writeFileSync(file, content)\<close> opens the file for writing, which empties it, and then
  writes the content. It returns with the content in the file, or it throws before the
  file is opened, which leaves the file as it was, or it throws after that, which leaves
  the first \<open>n\<close> code units of the content in the file (none for \<open>n = 0\<close>).
\<close>

datatype writeOutcome = Written | NotOpened | Truncated nat

record environment =
  windows :: bool
  chunks :: "chunk list"
  exitCode :: "int option"
  writeFileSync :: writeOutcome
  pullRequest :: bool
  uploadThrows :: bool

text \<open>
  The two accumulators \<open>(output, stderrOutput)\<close> of the \<^verbatim>\<open>data\<close> handlers (lines 405 to 413
  and 524 to 535). \<^verbatim>\<open>execSync\<close> collects the two streams in the same way, in its result
  or in the fields \<^verbatim>\<open>stdout\<close> and \<^verbatim>\<open>stderr\<close> of the error it throws.
\<close>

fun accumulate :: "chunk list \<Rightarrow> jsstring \<times> jsstring \<Rightarrow> jsstring \<times> jsstring" where
  "accumulate [] acc = acc"
| "accumulate (Stdout d # cs) (output, stderrOutput) = accumulate cs (output @ d, stderrOutput)"
| "accumulate (Stderr d # cs) (output, stderrOutput) = accumulate cs (output, stderrOutput @ d)"

text \<open>
  A call of \<^verbatim>\<open>extractScanUrl\<close> in \<^verbatim>\<open>runAction\<close>. No exception leaves \<^verbatim>\<open>extractScanUrl\<close>, so
  the second case is never taken.
\<close>

definition extractStep :: "jsstring \<Rightarrow> world \<Rightarrow> jsstring option \<times> world" where
  "extractStep output w =
     (case extractScanUrl output w of
        (Inr found, w') \<Rightarrow> (found, w')
      | (Inl e, w') \<Rightarrow> (None, w'))"

text \<open>\<^verbatim>\<open>if (scanUrl) core.setOutput('scan-url', scanUrl)\<close>, for the value \<open>found\<close> of \<^verbatim>\<open>scanUrl\<close>\<close>

fun setOutput :: "jsstring option \<Rightarrow> world \<Rightarrow> world" where
  "setOutput None w = w"
| "setOutput (Some u) w = (if u \<noteq> [] then w\<lparr>scanUrl := Some u\<rparr> else w)"

definition extractAndSet :: "jsstring \<Rightarrow> world \<Rightarrow> jsstring option \<times> world" where
  "extractAndSet output w =
     (case extractStep output w of (found, w') \<Rightarrow> (found, setOutput found w'))"

text \<open>\<^verbatim>\<open>code != null && code > 0\<close>\<close>

fun positive :: "int option \<Rightarrow> bool" where
  "positive None = False"
| "positive (Some code) = (code > 0)"

text \<open>\<^verbatim>\<open>options.breakBuildOnPolicyFindings == 'true'\<close>\<close>

definition breakBuild :: "options \<Rightarrow> bool" where
  "breakBuild opts = (breakBuildOnPolicyFindings opts = js ''true'')"

definition setFailed :: "world \<Rightarrow> world" where
  "setFailed w = w\<lparr>failed := True\<rparr>"

text \<open>
  The \<^verbatim>\<open>try\<close> block around \<^verbatim>\<open>writeFileSync('scaResults.txt', content)\<close> (lines 300 to 305
  and 568 to 573): an exception is written to the console by the \<^verbatim>\<open>catch\<close> and goes no
  further.
\<close>

definition writeResult :: "writeOutcome \<Rightarrow> jsstring \<Rightarrow> world \<Rightarrow> world" where
  "writeResult outcome content w =
     (case outcome of
        Written \<Rightarrow>
          w\<lparr>resultFile := Some content, consoleLines := consoleLines w @ [FileSaved]\<rparr>
      | NotOpened \<Rightarrow>
          w\<lparr>consoleLines := consoleLines w @ [ErrorWritingFile]\<rparr>
      | Truncated n \<Rightarrow>
          w\<lparr>resultFile := Some (take n content),
            consoleLines := consoleLines w @ [ErrorWritingFile]\<rparr>)"

text \<open>
  The comment on the pull request, when the run belongs to one. An error of
  \<^verbatim>\<open>createComment\<close> is caught and logged.
\<close>

definition decorate :: "bool \<Rightarrow> comment \<Rightarrow> world \<Rightarrow> world" where
  "decorate isPR body w = (if isPR then w\<lparr>comments := comments w @ [body]\<rparr> else w)"

definition generateIssues :: "world \<Rightarrow> world" where
  "generateIssues w = w\<lparr>issueRuns := issueRuns w + 1\<rparr>"

text \<open>
  \<^verbatim>\<open>await artifactClient.uploadArtifact(...)\<close>: \<open>None\<close> when it throws (an \<^verbatim>\<open>Error\<close>
  object). On Windows the \<^verbatim>\<open>catch\<close> of line 684 takes the error and logs it; in the
  \<^verbatim>\<open>close\<close> handlers of the other runners nothing takes it. In both cases the statements
  behind the upload are not run.
\<close>

definition upload :: "bool \<Rightarrow> jsstring \<Rightarrow> world \<Rightarrow> world option" where
  "upload throws file w = (if throws then None else Some (w\<lparr>artifacts := artifacts w @ [file]\<rparr>))"

text \<open>
  Windows, \<^verbatim>\<open>createIssues\<close> (lines 139 to 238). When \<^verbatim>\<open>execSync\<close> throws, the variable
  \<^verbatim>\<open>output\<close> still holds the empty string of its declaration.
\<close>

definition windowsIssues :: "options \<Rightarrow> environment \<Rightarrow> world \<Rightarrow> world" where
  "windowsIssues opts env w =
     (let (stdout, stderr) = accumulate (chunks env) ([], []);
          w1 = (if exitCode env = Some 0
                then snd (extractAndSet stdout w)
                else (let output = [];
                          w' = (if positive (exitCode env) \<and> breakBuild opts
                                then setFailed w else w)
                      in snd (extractAndSet output w')));
          w2 = generateIssues (decorate (pullRequest env) Summary w1)
      in case upload (uploadThrows env) (js ''scaResults.json'') w2 of
           None \<Rightarrow> w2
         | Some w3 \<Rightarrow> w3)"

text \<open>
  Windows, no \<^verbatim>\<open>createIssues\<close> (lines 240 to 385). When \<^verbatim>\<open>execSync\<close> throws, \<^verbatim>\<open>output\<close>
  and \<^verbatim>\<open>stderrOutput\<close> are taken from the error.
\<close>

definition windowsText :: "options \<Rightarrow> environment \<Rightarrow> world \<Rightarrow> world" where
  "windowsText opts env w =
     (let (stdout, stderr) = accumulate (chunks env) ([], []);
          output = stdout;
          w1 = (if exitCode env = Some 0
                then snd (extractAndSet output w)
                else (let stderrOutput = stderr;
                          w' = (if positive (exitCode env) \<and> breakBuild opts
                                then setFailed w else w);
                          combinedOutput = output @ stderrOutput
                      in snd (extractAndSet combinedOutput w')));
          w2 = writeResult (writeFileSync env) output w1
      in case upload (uploadThrows env) (js ''scaResults.txt'') w2 of
           None \<Rightarrow> w2
         | Some w3 \<Rightarrow> decorate (pullRequest env) (Details output) w3)"

text \<open>Other runners, \<^verbatim>\<open>createIssues\<close>: the \<^verbatim>\<open>close\<close> handler of lines 415 to 508.\<close>

definition unixIssues :: "options \<Rightarrow> environment \<Rightarrow> world \<Rightarrow> world" where
  "unixIssues opts env w =
     (let (output, stderrOutput) = accumulate (chunks env) ([], []);
          combinedOutput = output @ stderrOutput;
          w1 = snd (extractAndSet combinedOutput w);
          w2 = generateIssues
                 (decorate (pullRequest env) (SummaryWithCode (exitCode env)) w1);
          w3 = (if positive (exitCode env) then setFailed w2 else w2)
      in case upload (uploadThrows env) (js ''scaResults.json'') w3 of
           None \<Rightarrow> w3
         | Some w4 \<Rightarrow> w4)"

text \<open>
  Other runners, no \<^verbatim>\<open>createIssues\<close>: the \<^verbatim>\<open>close\<close> handler of lines 537 to 680. A
  result file that exists is read back as it was written; when it is longer than the
  captured output, the text of the file is searched instead.
\<close>

definition unixText :: "options \<Rightarrow> environment \<Rightarrow> world \<Rightarrow> world" where
  "unixText opts env w =
     (let (output, stderrOutput) = accumulate (chunks env) ([], []);
          combinedOutput = output @ stderrOutput;
          (found, w1) = extractAndSet combinedOutput w;
          w2 = writeResult (writeFileSync env) combinedOutput w1;
          fileOutput = (case resultFile w2 of
                          Some fileContent \<Rightarrow>
                            if fileContent \<noteq> [] \<and> length fileContent > length combinedOutput
                            then fileContent else combinedOutput
                        | None \<Rightarrow> combinedOutput);
          w3 = (if found = None \<or> found = Some [] then snd (extractAndSet fileOutput w2)
                else w2)
      in case upload (uploadThrows env) (js ''scaResults.txt'') w3 of
           None \<Rightarrow> w3
         | Some w4 \<Rightarrow>
             (let w5 = decorate (pullRequest env) (DetailsWithCode (exitCode env) output) w4
              in if positive (exitCode env) \<and> breakBuild opts then setFailed w5 else w5))"

text \<open>
  \<^verbatim>\<open>runAction(options)\<close>, with the \<^verbatim>\<open>close\<close> handler of the scanner run to its end, from
  the world \<open>w\<close> that the scanner left when it ended: the world that the run leaves.
\<close>

definition runAction :: "options \<Rightarrow> environment \<Rightarrow> world \<Rightarrow> world" where
  "runAction opts env w =
     (if windows env
      then (if createIssues opts then windowsIssues opts env w else windowsText opts env w)
      else (if createIssues opts then unixIssues opts env w else unixText opts env w))"

section \<open>Example inputs\<close>

text \<open>A world with no sidecar file, no result file and nothing written yet.\<close>

definition world0 :: world where
  "world0 = \<lparr>sidecarFile = Missing, resultFile = None, info = [], consoleLines = [],
     scanUrl = None, failed = False, comments = [], artifacts = [], issueRuns = 0\<rparr>"

text \<open>The sidecar document \<^verbatim>\<open>{"records":[{"metadata":{"report":"http://x.test/y"}}]}\<close>\<close>

definition scenarioD :: json where
  "scenarioD = JObj [(js ''records'',
     JArr [JObj [(js ''metadata'', JObj [(js ''report'', JStr (js ''http://x.test/y''))])]])]"

text \<open>Options with \<^verbatim>\<open>createIssues\<close> off and \<^verbatim>\<open>breakBuildOnPolicyFindings\<close> on.\<close>

definition options0 :: options where
  "options0 = \<lparr>optUrl = [], optPath = js ''.'', skipCollectors = [], scanCollectors = [],
     noGraphs = False, skipVms = False, createIssues = False, optRecursive = False,
     optQuick = False, allowDirty = False, updateAdvisor = False, optDebug = False,
     breakBuildOnPolicyFindings = js ''true''\<rparr>"

text \<open>
  Scenario E on a Windows runner: the scanner writes a line to standard output and the
  report line to standard error, and exits with status 2.
\<close>

definition scenarioE :: environment where
  "scenarioE = \<lparr>windows = True,
     chunks = [Stdout (js ''Scanning\<newline>''),
               Stderr (js ''Full Report Details https://x.test/r\<newline>'')],
     exitCode = Some 2, writeFileSync = Written, pullRequest = False, uploadThrows = False\<rparr>"

section \<open>The result of extractScanUrl\<close>

lemma tryPatterns_fst_Cons:
  "fst (tryPatterns i (p # ps) output) =
     (case Option.bind (match p output) group1 of
        None \<Rightarrow> fst (tryPatterns (Suc i) ps output)
      | Some m1 \<Rightarrow>
          if m1 \<noteq> [] \<and> isUrl (trim m1) then Some (trim m1)
          else fst (tryPatterns (Suc i) ps output))"
  by (simp split: option.splits prod.splits)

lemma tryPatterns_isUrl:
  "fst (tryPatterns i ps output) = Some url \<Longrightarrow> isUrl url"
proof (induction ps arbitrary: i)
  case Nil
  then show ?case by simp
next
  case (Cons p ps)
  then show ?case
    unfolding tryPatterns_fst_Cons by (auto split: option.splits if_splits)
qed

lemma jsonFallback_isUrl:
  "fst (jsonFallback f) = Inr (Some url) \<Longrightarrow> isUrl url"
  by (auto simp: jsonFallback_def
      split: sidecar.splits sum.splits option.splits json.splits if_splits)

lemma extractScanUrl_result:
  "fst (extractScanUrl output w) =
     (if output = [] then Inr None
      else case fst (tryPatterns 0 patterns output) of
             Some url \<Rightarrow> Inr (Some url)
           | None \<Rightarrow> (case fst (jsonFallback (sidecarFile w)) of
                        Inr r \<Rightarrow> Inr r
                      | Inl e \<Rightarrow> Inr None))"
  by (auto simp: extractScanUrl_def say_def Let_def
      split: prod.splits option.splits sum.splits)

lemma extractScanUrl_world:
  "\<exists>ms. snd (extractScanUrl output w) = w\<lparr>info := info w @ ms\<rparr>"
  by (auto simp: extractScanUrl_def say_def Let_def
      split: prod.splits option.splits sum.splits)

lemma extractScanUrl_Inr: "\<exists>r. fst (extractScanUrl output w) = Inr r"
  by (simp add: extractScanUrl_result split: option.splits sum.splits)

lemma extractScanUrl_isUrl:
  assumes "fst (extractScanUrl output w) = Inr (Some url)"
  shows "isUrl url"
proof (cases "fst (tryPatterns 0 patterns output)")
  case None
  with assms have "fst (jsonFallback (sidecarFile w)) = Inr (Some url)"
    by (auto simp: extractScanUrl_result split: if_splits sum.splits)
  then show ?thesis by (rule jsonFallback_isUrl)
next
  case (Some u)
  with assms have "u = url"
    by (auto simp: extractScanUrl_result split: if_splits)
  with Some show ?thesis using tryPatterns_isUrl by blast
qed

section \<open>Empty input\<close>

text \<open>
  C1, as stated, fails: for the empty text and the sidecar document of Scenario D,
  \<^verbatim>\<open>extractScanUrl\<close> returns \<^verbatim>\<open>null\<close>, not \<^verbatim>\<open>"http://x.test/y"\<close>. The guard
  \<^verbatim>\<open>if (!output)\<close> of line 32 returns before the sidecar file is looked at.
\<close>

theorem empty_input_scenarioD_is_null:
  "fst (extractScanUrl (js '''') (world0\<lparr>sidecarFile := Parsed scenarioD\<rparr>)) = Inr None \<and>
   fst (extractScanUrl (js '''') (world0\<lparr>sidecarFile := Parsed scenarioD\<rparr>))
     \<noteq> Inr (Some (js ''http://x.test/y''))"
  by (simp add: extractScanUrl_result js_def)

text \<open>
  C1, amended: for the empty text \<^verbatim>\<open>extractScanUrl\<close> returns \<^verbatim>\<open>null\<close> whatever the
  sidecar file holds, and it writes its two first messages only: the sidecar file is not
  read.
\<close>

theorem extractScanUrl_empty_input:
  "extractScanUrl [] w = (Inr None, w\<lparr>info := info w @ [StartExtraction, OutputEmpty]\<rparr>)"
  by (simp add: extractScanUrl_def say_def)

section \<open>Only URLs are returned\<close>

text \<open>
  C5: for every text and every state of the sidecar file, \<^verbatim>\<open>extractScanUrl\<close> returns
  \<^verbatim>\<open>null\<close> or a string that starts with \<^verbatim>\<open>http://\<close> or \<^verbatim>\<open>https://\<close>.
\<close>

theorem extractScanUrl_null_or_url:
  "fst (extractScanUrl output w) = Inr None \<or>
   (\<exists>url. fst (extractScanUrl output w) = Inr (Some url) \<and>
      (startsWith url (js ''http://'') \<or> startsWith url (js ''https://'')))"
proof -
  obtain r where r: "fst (extractScanUrl output w) = Inr r"
    using extractScanUrl_Inr by blast
  show ?thesis
  proof (cases r)
    case None
    with r show ?thesis by simp
  next
    case (Some url)
    with r have "isUrl url" using extractScanUrl_isUrl by blast
    with r Some show ?thesis by (simp add: isUrl_def)
  qed
qed

section \<open>The sidecar fallback\<close>

lemma bind_group1_Some:
  "Option.bind (match p output) group1 = Some t \<longleftrightarrow> match p output = Some (Captured t)"
  by (cases "match p output"; simp)
    (metis capture.exhaust group1.simps option.distinct(1) option.inject)

lemma tryPatterns_None:
  assumes "\<forall>p\<in>set ps. \<forall>t. match p output = Some (Captured t) \<longrightarrow> \<not> isUrl (trim t)"
  shows "fst (tryPatterns i ps output) = None"
  using assms
proof (induction ps arbitrary: i)
  case Nil
  then show ?case by simp
next
  case (Cons p ps)
  then show ?case
    unfolding tryPatterns_fst_Cons by (auto simp: bind_group1_Some split: option.splits)
qed

lemma tryPatterns_x: "fst (tryPatterns 0 patterns (js ''x'')) = None"
  by (simp add: patterns_def pattern1_def pattern2_def pattern3_def pattern4_def
      phrase_def scheme_def lit_def js_def canonicalize_def)

lemma match_x: "p \<in> set patterns \<Longrightarrow> match p (js ''x'') = None"
  by (auto simp: patterns_def pattern1_def pattern2_def pattern3_def pattern4_def
      phrase_def scheme_def lit_def js_def canonicalize_def)

lemma getMember_truthy: "getMember (Some v) k = Inr (Some x) \<Longrightarrow> truthy (Some v)"
  by (cases v) simp_all

lemma getIndex0_truthy: "getIndex0 (Some v) = Inr (Some x) \<Longrightarrow> truthy (Some v)"
  by (cases v) (auto split: list.splits)

lemma isUrl_nonempty: "isUrl url \<Longrightarrow> url \<noteq> []"
  by (auto simp: isUrl_def startsWith_def js_def)

lemma reportOf_path:
  assumes "getMember (Some j) (js ''records'') = Inr (Some records)"
    and "getIndex0 (Some records) = Inr (Some first)"
    and "getMember (Some first) (js ''metadata'') = Inr (Some metadata)"
    and "getMember (Some metadata) (js ''report'') = Inr (Some report)"
    and "truthy (Some report)"
  shows "reportOf j = Inr (Some report)"
  using assms getIndex0_truthy [OF assms(2)] getMember_truthy [OF assms(3)]
    getMember_truthy [OF assms(4)]
  by (simp add: reportOf_def)

text \<open>
  C4: for a text that is not empty and in which no pattern captures a token that, trimmed,
  starts with \<^verbatim>\<open>http://\<close> or \<^verbatim>\<open>https://\<close>, and a sidecar file that exists and parses to a
  document \<open>j\<close> whose \<^verbatim>\<open>records[0].metadata.report\<close> is a string \<open>url\<close> starting with
  \<^verbatim>\<open>http://\<close> or \<^verbatim>\<open>https://\<close>, \<^verbatim>\<open>extractScanUrl\<close> returns \<open>url\<close>.
\<close>

theorem sidecar_url_when_no_pattern_validates:
  assumes "output \<noteq> []"
    and "\<forall>p\<in>set patterns. \<forall>t. match p output = Some (Captured t) \<longrightarrow> \<not> isUrl (trim t)"
    and "sidecarFile w = Parsed j"
    and "getMember (Some j) (js ''records'') = Inr (Some records)"
    and "getIndex0 (Some records) = Inr (Some first)"
    and "getMember (Some first) (js ''metadata'') = Inr (Some metadata)"
    and "getMember (Some metadata) (js ''report'') = Inr (Some (JStr url))"
    and "startsWith url (js ''http://'') \<or> startsWith url (js ''https://'')"
  shows "fst (extractScanUrl output w) = Inr (Some url)"
proof -
  have url: "isUrl url" using assms(8) by (simp add: isUrl_def)
  then have "truthy (Some (JStr url))" using isUrl_nonempty by simp
  then have "reportOf j = Inr (Some (JStr url))"
    using assms(4-7) by (rule reportOf_path [rotated 4])
  then have "fst (jsonFallback (sidecarFile w)) = Inr (Some url)"
    using url assms(3) by (simp add: jsonFallback_def)
  moreover have "fst (tryPatterns 0 patterns output) = None"
    using assms(2) by (rule tryPatterns_None)
  ultimately show ?thesis using assms(1) by (simp add: extractScanUrl_result)
qed

text \<open>
  The theorem at the text \<^verbatim>\<open>"x"\<close> and the sidecar document of Scenario D.
\<close>

theorem sidecar_url_scenarioD:
  "fst (extractScanUrl (js ''x'') (world0\<lparr>sidecarFile := Parsed scenarioD\<rparr>))
     = Inr (Some (js ''http://x.test/y''))"
proof -
  have 1: "js ''x'' \<noteq> []" by (simp add: js_def)
  have 2: "\<forall>p\<in>set patterns. \<forall>t. match p (js ''x'') = Some (Captured t) \<longrightarrow> \<not> isUrl (trim t)"
    by (simp add: match_x)
  show ?thesis
    by (rule sidecar_url_when_no_pattern_validates [OF 1 2,
          where j = scenarioD
            and records = "JArr [JObj [(js ''metadata'',
                  JObj [(js ''report'', JStr (js ''http://x.test/y''))])]]"
            and first = "JObj [(js ''metadata'',
                  JObj [(js ''report'', JStr (js ''http://x.test/y''))])]"
            and metadata = "JObj [(js ''report'', JStr (js ''http://x.test/y''))]"])
      (simp_all add: scenarioD_def startsWith_def js_def)
qed

section \<open>No exception leaves extractScanUrl\<close>

text \<open>
  C6: for every text and every state of the sidecar file \<^verbatim>\<open>extractScanUrl\<close> returns (no
  exception leaves it), and a sidecar file that is missing, cannot be read, is no JSON, or
  parses to a document without a truthy \<^verbatim>\<open>records[0].metadata.report\<close> gives the result of
  the patterns alone, which is \<^verbatim>\<open>null\<close> when no pattern validated.
\<close>

theorem extractScanUrl_never_throws:
  "(\<exists>r. fst (extractScanUrl output w) = Inr r) \<and>
   fst (extractScanUrl output (w\<lparr>sidecarFile := Missing\<rparr>))
     = Inr (fst (tryPatterns 0 patterns output)) \<and>
   fst (extractScanUrl output (w\<lparr>sidecarFile := Unreadable\<rparr>))
     = Inr (fst (tryPatterns 0 patterns output)) \<and>
   fst (extractScanUrl output (w\<lparr>sidecarFile := Malformed\<rparr>))
     = Inr (fst (tryPatterns 0 patterns output)) \<and>
   ((\<forall>v. reportOf j \<noteq> Inr (Some v)) \<longrightarrow>
      fst (extractScanUrl output (w\<lparr>sidecarFile := Parsed j\<rparr>))
        = Inr (fst (tryPatterns 0 patterns output)))"
proof -
  have empty: "fst (tryPatterns 0 patterns []) = None"
    by (simp add: patterns_def pattern1_def pattern2_def pattern3_def pattern4_def
        phrase_def scheme_def lit_def js_def)
  have "fst (extractScanUrl output (w\<lparr>sidecarFile := f\<rparr>))
          = Inr (fst (tryPatterns 0 patterns output))"
    if "\<forall>url. fst (jsonFallback f) \<noteq> Inr (Some url)" for f
    using that empty
    by (cases "fst (jsonFallback f)")
       (auto simp: extractScanUrl_result split: option.splits sum.splits)
  moreover have "\<forall>url. fst (jsonFallback (Parsed j)) \<noteq> Inr (Some url)"
    if "\<forall>v. reportOf j \<noteq> Inr (Some v)"
    using that
    by (auto simp: jsonFallback_def split: sum.splits option.splits json.splits)
  ultimately show ?thesis
    using extractScanUrl_Inr [of "output" w] by (simp add: jsonFallback_def)
qed

text \<open>
  The theorem at the sidecar document \<^verbatim>\<open>null\<close>, where \<^verbatim>\<open>scaResJson.records\<close> throws a
  TypeError inside the \<^verbatim>\<open>try\<close> block.
\<close>

theorem never_throws_null_document:
  "(\<forall>v. reportOf JNull \<noteq> Inr (Some v)) \<and>
   fst (jsonFallback (Parsed JNull)) = Inl TypeError \<and>
   fst (extractScanUrl (js ''x'') (world0\<lparr>sidecarFile := Parsed JNull\<rparr>)) = Inr None"
  using extractScanUrl_never_throws [of "js ''x''" world0 JNull] tryPatterns_x
  by (simp add: reportOf_def jsonFallback_def)

section \<open>Extraction changes nothing it reads\<close>

text \<open>
  C9: a second call of \<^verbatim>\<open>extractScanUrl\<close> with the same text, in the world the first call
  left, returns what the first call returned. A call changes the world by its messages
  only, and the messages written so far have no part in the result.
\<close>

theorem extractScanUrl_idempotent:
  "fst (extractScanUrl output (snd (extractScanUrl output w))) = fst (extractScanUrl output w) \<and>
   (\<exists>ms. snd (extractScanUrl output w) = w\<lparr>info := info w @ ms\<rparr>) \<and>
   fst (extractScanUrl output (w\<lparr>info := ms'\<rparr>)) = fst (extractScanUrl output w)"
proof -
  obtain ms where "snd (extractScanUrl output w) = w\<lparr>info := info w @ ms\<rparr>"
    using extractScanUrl_world by blast
  then show ?thesis by (auto simp: extractScanUrl_result split: option.splits)
qed

section \<open>The matcher on texts of a known shape\<close>

lemma isSpace_canonicalize: "isSpace c \<Longrightarrow> canonicalize c = c"
  unfolding isSpace_def canonicalize_def by (auto simp: word_le_nat_alt)

lemma canonicalize_not_space: "\<not> isSpace a \<Longrightarrow> \<not> isSpace (canonicalize a)"
  unfolding isSpace_def canonicalize_def
  by (auto simp: word_le_nat_alt unat_sub)

lemma accepts_Char_not_space:
  "\<not> isSpace a \<Longrightarrow> accepts (Char a) x \<Longrightarrow> \<not> isSpace x"
  using isSpace_canonicalize canonicalize_not_space by fastforce

lemma fold_push_Unset [simp]: "fold push xs Unset = Unset"
  by (induction xs) simp_all

lemma fold_push_Recording [simp]: "fold push xs (Recording t) = Recording (t @ xs)"
  by (induction xs arbitrary: t) simp_all

lemma lit_Nil: "lit [] = []"
  by (simp add: lit_def js_def)

lemma lit_Cons: "lit (a # s) = One (Char (of_char a)) # lit s"
  by (simp add: lit_def js_def)

text \<open>A text that equals a literal of the pattern up to letter case is matched by it.\<close>

lemma matchHere_lit:
  "map canonicalize f = map canonicalize (js s) \<Longrightarrow>
   matchHere (lit s @ q) (f @ t) c = matchHere q t (fold push f c)"
proof (induction s arbitrary: f c)
  case Nil
  then show ?case by (simp add: js_def lit_Nil)
next
  case (Cons a s)
  then obtain x f' where f: "f = x # f'" "canonicalize x = canonicalize (of_char a)"
    "map canonicalize f' = map canonicalize (js s)"
    by (cases f) (auto simp: js_def)
  with Cons.IH [of f' "push x c"] show ?case by (simp add: lit_Cons)
qed

text \<open>
  A greedy \<^verbatim>\<open>+\<close> takes a whole run of accepted characters when the rest of the pattern
  matches behind the run.
\<close>

lemma matchHere_Plus:
  assumes "ws \<noteq> []" "\<forall>x\<in>set ws. accepts a x" "t = [] \<or> \<not> accepts a (hd t)"
    and "matchHere q t (fold push ws c) = Some res"
  shows "matchHere (Plus a # q) (ws @ t) c = Some res"
  using assms
proof (induction ws arbitrary: c)
  case Nil
  then show ?case by simp
next
  case (Cons x ws)
  show ?case
  proof (cases "ws = []")
    case True
    have "matchHere (Plus a # q) t (push x c) = None"
      using Cons.prems(3) by (cases t) auto
    with Cons.prems True show ?thesis by simp
  next
    case False
    with Cons.IH [of "push x c"] Cons.prems
    have "matchHere (Plus a # q) (ws @ t) (push x c) = Some res" by simp
    with Cons.prems show ?thesis by simp
  qed
qed

lemma match_here: "matchHere p s Unset = Some c \<Longrightarrow> match p s = Some c"
  by (cases s) simp_all

lemma match_skip:
  assumes "\<forall>k<length pre. matchHere p (drop k (pre @ s)) Unset = None"
    and "matchHere p s Unset = Some c"
  shows "match p (pre @ s) = Some c"
  using assms
proof (induction pre)
  case Nil
  then show ?case by (simp add: match_here)
next
  case (Cons x pre)
  from Cons.prems(1) have "matchHere p (x # pre @ s) Unset = None" by fastforce
  moreover have "\<forall>k<length pre. matchHere p (drop k (pre @ s)) Unset = None"
    using Cons.prems(1) by fastforce
  ultimately show ?case using Cons by simp
qed

section \<open>The report line\<close>

lemma head_not_space:
  assumes "map canonicalize r = map canonicalize (js (a # s))" "\<not> isSpace (of_char a)"
  shows "r @ t \<noteq> [] \<and> \<not> accepts Esc_s (hd (r @ t))"
proof -
  from assms(1) obtain x r' where "r = x # r'" "canonicalize x = canonicalize (of_char a)"
    by (cases r) (auto simp: js_def)
  with assms(2) show ?thesis
    using accepts_Char_not_space [of "of_char a" x] by simp
qed

text \<open>The phrase, in any letter case and with any runs of white space, is matched.\<close>

lemma matchHere_phrase:
  assumes "map canonicalize f = map canonicalize (js ''Full'')"
    and "map canonicalize r = map canonicalize (js ''Report'')"
    and "map canonicalize d = map canonicalize (js ''Details'')"
    and "w1 \<noteq> []" "\<forall>c\<in>set w1. isSpace c" "w2 \<noteq> []" "\<forall>c\<in>set w2. isSpace c"
    and "matchHere q t Unset = Some res"
  shows "matchHere (phrase @ q) (f @ w1 @ r @ w2 @ d @ t) Unset = Some res"
proof -
  have sp: "\<not> isSpace (of_char CHR ''R'')" "\<not> isSpace (of_char CHR ''D'')"
    by (simp_all add: isSpace_def)
  have "matchHere (lit ''Details'' @ q) (d @ t) Unset = Some res"
    using assms(3,8) by (simp add: matchHere_lit)
  then have "matchHere (Plus Esc_s # lit ''Details'' @ q) (w2 @ d @ t) Unset = Some res"
    using assms(6,7) head_not_space [OF assms(3) sp(2), of t]
    by (intro matchHere_Plus) auto
  then have "matchHere (lit ''Report'' @ Plus Esc_s # lit ''Details'' @ q)
      (r @ w2 @ d @ t) Unset = Some res"
    using assms(2) by (simp add: matchHere_lit)
  then have "matchHere (Plus Esc_s # lit ''Report'' @ Plus Esc_s # lit ''Details'' @ q)
      (w1 @ r @ w2 @ d @ t) Unset = Some res"
    using assms(4,5) head_not_space [OF assms(2) sp(1), of "w2 @ d @ t"]
    by (intro matchHere_Plus) auto
  then show ?thesis
    using assms(1) unfolding phrase_def by (simp add: matchHere_lit)
qed

lemma not_space_accepted:
  "\<not> isSpace x \<Longrightarrow> accepts (NotSet [WhiteSpace, Ch 0x0D, Ch 0x0A]) x"
  using isSpace_canonicalize [of "0x0D"] isSpace_canonicalize [of "0x0A"]
    canonicalize_not_space [of x]
  by (auto simp: isSpace_def)

lemma space_not_accepted:
  "isSpace x \<Longrightarrow> \<not> accepts (NotSet [WhiteSpace, Ch 0x0D, Ch 0x0A]) x"
  by simp

text \<open>The group of the first pattern captures a whole token with an http(s) scheme.\<close>

lemma matchHere_url:
  assumes "url = js ''http://'' @ t \<or> url = js ''https://'' @ t" "t \<noteq> []"
    and "\<forall>c\<in>set url. \<not> isSpace c" "rest = [] \<or> isSpace (hd rest)"
  shows "matchHere (scheme @ [Plus (NotSet [WhiteSpace, Ch 0x0D, Ch 0x0A]), GroupClose])
           (url @ rest) (Recording []) = Some (Captured url)"
proof -
  have t: "\<forall>x\<in>set t. accepts (NotSet [WhiteSpace, Ch 0x0D, Ch 0x0A]) x"
    using assms(1,3) not_space_accepted by auto
  have r: "rest = [] \<or> \<not> accepts (NotSet [WhiteSpace, Ch 0x0D, Ch 0x0A]) (hd rest)"
    using assms(4) by auto
  have tail: "matchHere [Plus (NotSet [WhiteSpace, Ch 0x0D, Ch 0x0A]), GroupClose]
      (t @ rest) (Recording acc) = Some (Captured (acc @ t))" for acc
    using assms(2) t r by (intro matchHere_Plus) simp_all
  from assms(1) show ?thesis
  proof
    assume "url = js ''http://'' @ t"
    then show ?thesis
      using tail [of "js ''http://''"]
      by (simp add: scheme_def js_def canonicalize_def lit_def)
  next
    assume "url = js ''https://'' @ t"
    then show ?thesis
      using tail [of "js ''https://''"]
      by (simp add: scheme_def js_def canonicalize_def lit_def)
  qed
qed

lemma trim_no_space:
  assumes "\<forall>c\<in>set s. \<not> isSpace c"
  shows "trim s = s"
proof -
  have "dropWhile isSpace xs = xs" if "set xs \<subseteq> set s" for xs
    using that assms by (cases xs) auto
  from this [of s] this [of "rev s"] show ?thesis by (simp add: trim_def)
qed

text \<open>
  C2, as stated, fails: in the text below the phrase is followed by white space and the
  token \<^verbatim>\<open>https://b\<close>, and \<^verbatim>\<open>extractScanUrl\<close> returns \<^verbatim>\<open>null\<close>. Every pattern matches
  at the first occurrence of the phrase, where the flag \<^verbatim>\<open>i\<close> lets \<^verbatim>\<open>https?\<close> accept
  \<^verbatim>\<open>HTTP\<close>; the token \<^verbatim>\<open>HTTP://a\<close> fails the test of line 68, and \<^verbatim>\<open>String.match\<close>
  yields no second match.
\<close>

theorem uppercase_scheme_first_occurrence:
  "js ''Full Report Details HTTP://a\<newline>Full Report Details https://b''
     = js ''Full Report Details HTTP://a\<newline>'' @ js ''Full Report Details'' @ js '' '' @
       js ''https://b'' \<and>
   fst (extractScanUrl
     (js ''Full Report Details HTTP://a\<newline>Full Report Details https://b'') world0)
   = Inr None"
  by (simp add: extractScanUrl_result jsonFallback_def world0_def js_def patterns_def
      pattern1_def pattern2_def pattern3_def pattern4_def phrase_def scheme_def lit_def
      canonicalize_def isSpace_def trim_def isUrl_def startsWith_def)

text \<open>
  C2, amended: let the text have, at some position, the phrase \<^verbatim>\<open>Full Report Details\<close> (in
  any letter case, with any runs of white space between the words), then white space, then
  a token \<open>url\<close> without white space that starts with \<^verbatim>\<open>http://\<close> or \<^verbatim>\<open>https://\<close>, has
  a character more, and ends at white space or at the end of the text; and let the first
  pattern match at no earlier position of the text. Then \<^verbatim>\<open>extractScanUrl\<close> returns
  \<open>url\<close>, whatever the sidecar file holds.
\<close>

theorem first_report_url_is_extracted:
  assumes "output = pre @ f @ w1 @ r @ w2 @ d @ w3 @ url @ rest"
    and "map canonicalize f = map canonicalize (js ''Full'')"
    and "map canonicalize r = map canonicalize (js ''Report'')"
    and "map canonicalize d = map canonicalize (js ''Details'')"
    and "w1 \<noteq> []" "\<forall>c\<in>set w1. isSpace c"
    and "w2 \<noteq> []" "\<forall>c\<in>set w2. isSpace c"
    and "w3 \<noteq> []" "\<forall>c\<in>set w3. isSpace c"
    and "url = js ''http://'' @ t \<or> url = js ''https://'' @ t" "t \<noteq> []"
    and "\<forall>c\<in>set url. \<not> isSpace c"
    and "rest = [] \<or> isSpace (hd rest)"
    and "\<forall>k<length pre. matchHere pattern1 (drop k output) Unset = None"
  shows "fst (extractScanUrl output w) = Inr (Some url)"
proof -
  let ?cls = "NotSet [WhiteSpace, Ch 0x0D, Ch 0x0A]"
  have u: "url \<noteq> []" "\<not> accepts Esc_s (hd (url @ rest))"
    using assms(11,13) by (auto simp: js_def)
  have "matchHere (GroupOpen # scheme @ [Plus ?cls, GroupClose]) (url @ rest) Unset
      = Some (Captured url)"
    using matchHere_url [OF assms(11-14)] by simp
  then have "matchHere (Plus Esc_s # GroupOpen # scheme @ [Plus ?cls, GroupClose])
      (w3 @ url @ rest) Unset = Some (Captured url)"
    using assms(9,10) u by (intro matchHere_Plus) auto
  then have "matchHere (phrase @ Plus Esc_s # GroupOpen # scheme @ [Plus ?cls, GroupClose])
      (f @ w1 @ r @ w2 @ d @ w3 @ url @ rest) Unset = Some (Captured url)"
    using assms(2-8) by (intro matchHere_phrase)
  then have "matchHere pattern1 (f @ w1 @ r @ w2 @ d @ w3 @ url @ rest) Unset
      = Some (Captured url)"
    by (simp add: pattern1_def)
  then have "match pattern1 output = Some (Captured url)"
    using assms(15) unfolding assms(1) by (intro match_skip)
  moreover have "trim url = url" using assms(13) by (rule trim_no_space)
  moreover have "isUrl url"
    using assms(11) by (auto simp: isUrl_def startsWith_def js_def)
  moreover have "output \<noteq> []" using u(1) assms(1) by simp
  ultimately show ?thesis
    using u(1) by (simp add: extractScanUrl_result patterns_def)
qed


lemma no_match_Suc:
  "(\<forall>k<Suc n. matchHere p (drop k (x # xs)) c = None) \<longleftrightarrow>
   matchHere p (x # xs) c = None \<and> (\<forall>k<n. matchHere p (drop k xs) c = None)"
  by (auto simp: less_Suc_eq_0_disj)

text \<open>The theorem at the text of Scenario A.\<close>

theorem scenarioA_url:
  "fst (extractScanUrl
     (js ''Build OK\<newline>Full Report Details   https://scan.example.com/r/123\<newline>'') world0)
   = Inr (Some (js ''https://scan.example.com/r/123''))"
proof -
  have "fst (extractScanUrl
      (js ''Build OK\<newline>'' @ js ''Full'' @ js '' '' @ js ''Report'' @ js '' '' @
       js ''Details'' @ js ''   '' @ js ''https://scan.example.com/r/123'' @ js ''\<newline>'') world0)
    = Inr (Some (js ''https://scan.example.com/r/123''))"
    by (rule first_report_url_is_extracted [where pre = "js ''Build OK\<newline>''"
          and f = "js ''Full''" and ?w1.0 = "js '' ''" and r = "js ''Report''"
          and ?w2.0 = "js '' ''" and d = "js ''Details''" and ?w3.0 = "js ''   ''"
          and t = "js ''scan.example.com/r/123''" and rest = "js ''\<newline>''"])
       (simp_all add: js_def isSpace_def no_match_Suc pattern1_def phrase_def scheme_def
          lit_def canonicalize_def)
  then show ?thesis by (simp add: js_def)
qed

section \<open>Tokens that are no URL\<close>

text \<open>A match of a pattern ends with a match of each of its tails.\<close>

lemma matchHere_tail:
  "matchHere (pre @ q) s c = Some res \<Longrightarrow> \<exists>s' c'. matchHere q s' c' = Some res"
proof (induction pre arbitrary: s c)
  case Nil
  then show ?case by auto
next
  case (Cons i pre)
  show ?case
  proof (cases i)
    case (One a)
    with Cons show ?thesis by (cases s) (auto split: if_splits)
  next
    case (Opt a)
    with Cons show ?thesis by (cases s) (auto split: if_splits option.splits)
  next
    case (Plus a)
    have "matchHere (Plus a # pre @ q) s c = Some res \<Longrightarrow> ?thesis" for s c
    proof (induction s arbitrary: c)
      case Nil
      then show ?case by simp
    next
      case (Cons x xs)
      then show ?case using Cons.IH \<open>\<And>s c. matchHere (pre @ q) s c = Some res \<Longrightarrow> ?thesis\<close>
        by (auto split: if_splits option.splits)
    qed
    with Cons.prems Plus show ?thesis by simp
  next
    case GroupOpen
    with Cons show ?thesis by auto
  next
    case GroupClose
    with Cons show ?thesis by auto
  qed
qed

lemma match_Some: "match p s = Some c \<Longrightarrow> \<exists>s'. matchHere p s' Unset = Some c"
  by (induction s) (auto split: option.splits)

text \<open>Behind the opening of the group, the captured text only grows.\<close>

lemma matchHere_extends:
  "GroupOpen \<notin> set r \<Longrightarrow> c = Recording (t @ u) \<or> c = Captured (t @ u) \<Longrightarrow>
   matchHere r s c = Some res \<Longrightarrow> \<exists>v. res = Recording (t @ v) \<or> res = Captured (t @ v)"
proof (induction r s c arbitrary: u rule: matchHere.induct)
  case (3 r s c)
  from "3.prems"(2) have "closeGroup c = Recording (t @ u) \<or> closeGroup c = Captured (t @ u)"
    by auto
  with 3 show ?case by auto
next
  case (5 a r x xs c)
  from "5.prems"(2) have "push x c = Recording (t @ (u @ [x])) \<or> push x c = Captured (t @ u)"
    by auto
  with 5 show ?case by (auto split: if_splits)
next
  case (7 a r x xs c)
  from "7.prems"(2) have "push x c = Recording (t @ (u @ [x])) \<or> push x c = Captured (t @ u)"
    by auto
  with 7 show ?case by (auto split: if_splits option.splits)
next
  case (9 a r x xs c)
  from "9.prems"(2) have "push x c = Recording (t @ (u @ [x])) \<or> push x c = Captured (t @ u)"
    by auto
  with 9 show ?case by (auto split: if_splits option.splits)
qed auto

text \<open>The captured text starts with a character that the first atom of the group accepts.\<close>

lemma group_head:
  assumes "matchHere (GroupOpen # i # g) s c = Some (Captured token)"
    and "i = One a \<or> i = Plus a" and "GroupOpen \<notin> set g"
  shows "\<exists>x u. token = x # u \<and> accepts a x"
proof (cases s)
  case Nil
  with assms show ?thesis by auto
next
  case (Cons x xs)
  with assms(1,2) have x: "accepts a x" by (auto split: if_splits)
  have "\<exists>r. GroupOpen \<notin> set r \<and> matchHere r xs (Recording ([x] @ [])) = Some (Captured token)"
  proof (cases "i = One a")
    case True
    with assms(1,3) Cons x show ?thesis by auto
  next
    case False
    with assms(2) have i: "i = Plus a" by simp
    show ?thesis
    proof (cases "matchHere (Plus a # g) xs (Recording [x])")
      case None
      with assms(1,3) Cons x i show ?thesis by auto
    next
      case (Some c')
      with assms(1) Cons x i
      have "matchHere (Plus a # g) xs (Recording ([x] @ [])) = Some (Captured token)" by simp
      moreover have "GroupOpen \<notin> set (Plus a # g)" using assms(3) by simp
      ultimately show ?thesis by blast
    qed
  qed
  then obtain r where r: "GroupOpen \<notin> set r"
    "matchHere r xs (Recording ([x] @ [])) = Some (Captured token)" by blast
  from matchHere_extends [OF r(1) _ r(2), where t = "[x]" and u = "[]"]
  have "\<exists>v. token = [x] @ v" by auto
  with x show ?thesis by auto
qed

lemma capture_of_group:
  assumes "match (pre @ GroupOpen # i # g) output = Some (Captured token)"
    and "i = One a \<or> i = Plus a" and "GroupOpen \<notin> set g"
    and "\<And>x. accepts a x \<Longrightarrow> \<not> isSpace x"
  shows "token \<noteq> [] \<and> \<not> isSpace (hd token)"
proof -
  from assms(1) obtain s where
    "matchHere (pre @ GroupOpen # i # g) s Unset = Some (Captured token)"
    using match_Some by blast
  then obtain s' c' where "matchHere (GroupOpen # i # g) s' c' = Some (Captured token)"
    using matchHere_tail by blast
  from group_head [OF this assms(2,3)] obtain x u where "token = x # u" "accepts a x"
    by auto
  with assms(4) show ?thesis by auto
qed

lemma pattern_capture:
  assumes "p \<in> set patterns" "match p output = Some (Captured token)"
  shows "token \<noteq> [] \<and> \<not> isSpace (hd token)"
proof -
  have h: "\<not> isSpace x" if "accepts (Char 0x68) x" for x
    using that accepts_Char_not_space [of "0x68" x] by (simp add: isSpace_def)
  let ?s = "phrase @ [Plus Esc_s]"
  let ?c = "phrase @ [Plus (Set [Ch 0x3A, WhiteSpace])]"
  let ?url = "lit ''ttp'' @ [Opt (Char 0x73)] @ lit ''://''"
  let ?g = "?url @ [Plus (NotSet [WhiteSpace, Ch 0x0D, Ch 0x0A]), GroupClose]"
  let ?g4 = "?url @ [Plus (NotSet [Ch 0x0D, Ch 0x0A]), GroupClose]"
  have g: "GroupOpen \<notin> set ?g" "GroupOpen \<notin> set ?g4"
    by (simp_all add: lit_def js_def)
  from assms(1) consider "p = pattern1" | "p = pattern2" | "p = pattern3" | "p = pattern4"
    by (auto simp: patterns_def)
  then show ?thesis
  proof cases
    case 1
    then have eq: "p = ?s @ GroupOpen # One (Char 0x68) # ?g"
      by (simp add: pattern1_def scheme_def lit_def js_def)
    have "match (?s @ GroupOpen # One (Char 0x68) # ?g) output = Some (Captured token)"
      using assms(2) unfolding eq .
    then show ?thesis by (rule capture_of_group [OF _ _ g(1) h]) auto
  next
    case 2
    then have eq: "p = ?c @ GroupOpen # One (Char 0x68) # ?g"
      by (simp add: pattern2_def scheme_def lit_def js_def)
    have "match (?c @ GroupOpen # One (Char 0x68) # ?g) output = Some (Captured token)"
      using assms(2) unfolding eq .
    then show ?thesis by (rule capture_of_group [OF _ _ g(1) h]) auto
  next
    case 3
    then have eq: "p = ?s @ GroupOpen # Plus Esc_S # [GroupClose]"
      by (simp add: pattern3_def)
    have "match (?s @ GroupOpen # Plus Esc_S # [GroupClose]) output = Some (Captured token)"
      using assms(2) unfolding eq .
    then show ?thesis by (rule capture_of_group [where a = Esc_S]) auto
  next
    case 4
    then have eq: "p = ?c @ GroupOpen # One (Char 0x68) # ?g4"
      by (simp add: pattern4_def scheme_def lit_def js_def)
    have "match (?c @ GroupOpen # One (Char 0x68) # ?g4) output = Some (Captured token)"
      using assms(2) unfolding eq .
    then show ?thesis by (rule capture_of_group [OF _ _ g(2) h]) auto
  qed
qed

text \<open>Trimming a text that starts with no white space leaves a prefix of it.\<close>

lemma isUrl_trim:
  assumes "token \<noteq> []" "\<not> isSpace (hd token)" "isUrl (trim token)"
  shows "isUrl token"
proof -
  have "dropWhile isSpace token = token" using assms(1,2) by (cases token) auto
  then have "trim token = rev (dropWhile isSpace (rev token))" by (simp add: trim_def)
  then have "token = trim token @ rev (takeWhile isSpace (rev token))"
    by (metis rev_append rev_rev_ident takeWhile_dropWhile_id)
  then obtain v where v: "token = trim token @ v" ..
  have "startsWith (trim token @ v) q" if "startsWith (trim token) q" for q
  proof -
    from that have "length (take (length q) (trim token)) = length q"
      unfolding startsWith_def by simp
    then have "length q \<le> length (trim token)" by simp
    with that show ?thesis by (simp add: startsWith_def)
  qed
  with assms(3) v show ?thesis unfolding isUrl_def by metis
qed

lemma tryPatterns_index:
  "fst (tryPatterns i ps output) = fst (tryPatterns j ps output)"
proof (induction ps arbitrary: i j)
  case Nil
  show ?case by simp
next
  case (Cons p ps)
  from Cons [of "Suc i" "Suc j"] show ?case
    unfolding tryPatterns_fst_Cons by (simp split: option.splits)
qed

lemma tryPatterns_skip:
  assumes "match p output = Some (Captured token)" "\<not> isUrl (trim token)"
  shows "fst (tryPatterns i (before @ p # later) output)
           = fst (tryPatterns i (before @ later) output)"
proof (induction before arbitrary: i)
  case Nil
  from assms show ?case
    unfolding append_Nil tryPatterns_fst_Cons
    using tryPatterns_index [of "Suc i" later "output" i] by simp
next
  case (Cons q before)
  from Cons [of "Suc i"] show ?case
    unfolding append_Cons tryPatterns_fst_Cons by (simp split: option.splits)
qed

lemma match_empty: "p \<in> set patterns \<Longrightarrow> match p [] = None"
  by (auto simp: patterns_def pattern1_def pattern2_def pattern3_def pattern4_def
      phrase_def lit_def js_def)

text \<open>After patterns that validate nothing, the first pattern that validates decides.\<close>

lemma tryPatterns_first:
  assumes "\<forall>r\<in>set pre. \<forall>s. match r output = Some (Captured s) \<longrightarrow> \<not> isUrl (trim s)"
    and "match q output = Some (Captured t)" and "isUrl (trim t)"
  shows "fst (tryPatterns i (pre @ q # rest) output) = Some (trim t)"
  using assms(1)
proof (induction pre arbitrary: i)
  case Nil
  have "trim t \<noteq> []" using assms(3) by (rule isUrl_nonempty)
  then have "t \<noteq> []" by (auto simp: trim_def)
  with assms(2,3) show ?case unfolding append_Nil tryPatterns_fst_Cons by simp
next
  case (Cons r pre)
  from Cons.prems have "fst (tryPatterns (Suc i) (pre @ q # rest) output) = Some (trim t)"
    by (intro Cons.IH) simp
  moreover from Cons.prems
  have "\<forall>s. match r output = Some (Captured s) \<longrightarrow> \<not> isUrl (trim s)" by simp
  ultimately show ?case
    unfolding append_Cons tryPatterns_fst_Cons
    by (auto simp: bind_group1_Some split: option.splits)
qed

text \<open>
  C3: when one of the four patterns matches and the token it captures starts with neither
  \<^verbatim>\<open>http://\<close> nor \<^verbatim>\<open>https://\<close> (case-sensitive), \<^verbatim>\<open>extractScanUrl\<close> does not return the
  token, and the loop goes on with the next pattern: the first of the other patterns, in
  their order, whose capture validates gives the result, and when none of them validates
  the result is the one of the sidecar fallback. The text
  \<^verbatim>\<open>"Full Report Details: not-a-url"\<close> with no sidecar file gives \<^verbatim>\<open>null\<close>.
\<close>

theorem rejected_token_is_skipped:
  assumes "patterns = before @ p # later"
    and "match p output = Some (Captured token)"
    and "\<not> startsWith token (js ''http://'')" and "\<not> startsWith token (js ''https://'')"
  shows "fst (extractScanUrl output w) \<noteq> Inr (Some token) \<and>
    (\<forall>mid q rest t.
       later = mid @ q # rest \<and>
       (\<forall>r\<in>set (before @ mid). \<forall>s. match r output = Some (Captured s) \<longrightarrow>
          \<not> isUrl (trim s)) \<and>
       match q output = Some (Captured t) \<and> isUrl (trim t) \<longrightarrow>
       fst (extractScanUrl output w) = Inr (Some (trim t))) \<and>
    ((\<forall>r\<in>set (before @ later). \<forall>s. match r output = Some (Captured s) \<longrightarrow>
        \<not> isUrl (trim s)) \<longrightarrow>
     fst (extractScanUrl output w) =
       (case fst (jsonFallback (sidecarFile w)) of
          Inr r \<Rightarrow> Inr r
        | Inl e \<Rightarrow> Inr None)) \<and>
    fst (extractScanUrl (js ''Full Report Details: not-a-url'') (w\<lparr>sidecarFile := Missing\<rparr>))
      = Inr None"
proof -
  have p: "p \<in> set patterns" unfolding assms(1) by simp
  have no: "\<not> isUrl token" using assms(3,4) by (simp add: isUrl_def)
  then have 1: "fst (extractScanUrl output w) \<noteq> Inr (Some token)"
    using extractScanUrl_isUrl by blast
  have rejected: "\<not> isUrl (trim token)"
    using no pattern_capture [OF p assms(2)] isUrl_trim by blast
  have ne: "output \<noteq> []" using match_empty [OF p] assms(2) by auto
  have others: "fst (tryPatterns 0 patterns output)
      = fst (tryPatterns 0 (before @ later) output)"
    unfolding assms(1) by (rule tryPatterns_skip [OF assms(2) rejected])
  have 2: "fst (extractScanUrl output w) = Inr (Some (trim t))"
    if "later = mid @ q # rest"
      and "\<forall>r\<in>set (before @ mid). \<forall>s. match r output = Some (Captured s) \<longrightarrow>
          \<not> isUrl (trim s)"
      and "match q output = Some (Captured t)" and "isUrl (trim t)"
    for mid q rest t
  proof -
    have "fst (tryPatterns 0 ((before @ mid) @ q # rest) output) = Some (trim t)"
      using that(2-4) by (rule tryPatterns_first)
    then have "fst (tryPatterns 0 patterns output) = Some (trim t)"
      unfolding others that(1) by simp
    with ne show ?thesis by (simp add: extractScanUrl_result)
  qed
  have 3: "fst (extractScanUrl output w) =
       (case fst (jsonFallback (sidecarFile w)) of
          Inr r \<Rightarrow> Inr r
        | Inl e \<Rightarrow> Inr None)"
    if "\<forall>r\<in>set (before @ later). \<forall>s. match r output = Some (Captured s) \<longrightarrow>
        \<not> isUrl (trim s)"
  proof -
    have "fst (tryPatterns 0 (before @ later) output) = None"
      using that by (rule tryPatterns_None)
    with ne others show ?thesis by (simp add: extractScanUrl_result)
  qed
  have 4: "fst (extractScanUrl (js ''Full Report Details: not-a-url'')
      (w\<lparr>sidecarFile := Missing\<rparr>)) = Inr None"
    by (simp add: extractScanUrl_result jsonFallback_def js_def patterns_def
      pattern1_def pattern2_def pattern3_def pattern4_def phrase_def scheme_def lit_def
      canonicalize_def isSpace_def)
  from 1 2 3 4 show ?thesis by blast
qed

lemma trim_good: "trim (js ''https://good'') = js ''https://good''"
  by (simp add: trim_def js_def isSpace_def)

text \<open>
  The theorem at the text \<^verbatim>\<open>"Full Report Details: https://good\nFull Report Details HTTP://bad"\<close>,
  where the first pattern captures \<^verbatim>\<open>HTTP://bad\<close> and the second pattern, tried next,
  captures \<^verbatim>\<open>https://good\<close>, which is returned; and at the text
  \<^verbatim>\<open>"Full Report Details not-a-url"\<close>, where the third pattern captures \<^verbatim>\<open>not-a-url\<close> and no
  other pattern matches, with the sidecar document of Scenario D, whose URL is returned.
\<close>

theorem not_a_url_is_skipped:
  "match pattern1 (js ''Full Report Details: https://good\<newline>Full Report Details HTTP://bad'')
     = Some (Captured (js ''HTTP://bad'')) \<and>
   match pattern2 (js ''Full Report Details: https://good\<newline>Full Report Details HTTP://bad'')
     = Some (Captured (js ''https://good'')) \<and>
   fst (extractScanUrl
     (js ''Full Report Details: https://good\<newline>Full Report Details HTTP://bad'') world0)
     = Inr (Some (js ''https://good'')) \<and>
   match pattern3 (js ''Full Report Details not-a-url'') = Some (Captured (js ''not-a-url'')) \<and>
   fst (extractScanUrl (js ''Full Report Details not-a-url'') world0)
     \<noteq> Inr (Some (js ''not-a-url'')) \<and>
   fst (extractScanUrl (js ''Full Report Details not-a-url'') world0) = Inr None \<and>
   fst (extractScanUrl (js ''Full Report Details not-a-url'')
     (world0\<lparr>sidecarFile := Parsed scenarioD\<rparr>)) = Inr (Some (js ''http://x.test/y''))"
proof -
  let ?a = "js ''Full Report Details: https://good\<newline>Full Report Details HTTP://bad''"
  let ?b = "js ''Full Report Details not-a-url''"
  have a1: "match pattern1 ?a = Some (Captured (js ''HTTP://bad''))"
    by (simp add: js_def pattern1_def phrase_def scheme_def lit_def canonicalize_def
      isSpace_def)
  have a2: "match pattern2 ?a = Some (Captured (js ''https://good''))"
    by (simp add: js_def pattern2_def phrase_def scheme_def lit_def canonicalize_def
      isSpace_def)
  have pa: "patterns = [] @ pattern1 # [pattern2, pattern3, pattern4]"
    by (simp add: patterns_def)
  have sa: "\<not> startsWith (js ''HTTP://bad'') (js ''http://'')"
    "\<not> startsWith (js ''HTTP://bad'') (js ''https://'')"
    by (simp_all add: startsWith_def js_def)
  have good: "isUrl (trim (js ''https://good''))"
    by (simp add: trim_good) (simp add: isUrl_def startsWith_def js_def)
  have "[pattern2, pattern3, pattern4] = [] @ pattern2 # [pattern3, pattern4] \<and>
      (\<forall>r\<in>set ([] @ []). \<forall>s. match r ?a = Some (Captured s) \<longrightarrow> \<not> isUrl (trim s)) \<and>
      match pattern2 ?a = Some (Captured (js ''https://good'')) \<and>
      isUrl (trim (js ''https://good''))"
    using a2 good by simp
  with rejected_token_is_skipped [OF pa a1 sa, of world0]
  have "fst (extractScanUrl ?a world0) = Inr (Some (trim (js ''https://good'')))"
    by blast
  then have a3: "fst (extractScanUrl ?a world0) = Inr (Some (js ''https://good''))"
    by (simp only: trim_good)
  have b3: "match pattern3 ?b = Some (Captured (js ''not-a-url''))"
    by (simp add: js_def pattern3_def phrase_def lit_def canonicalize_def isSpace_def)
  have pb: "patterns = [pattern1, pattern2] @ pattern3 # [pattern4]"
    by (simp add: patterns_def)
  have sb: "\<not> startsWith (js ''not-a-url'') (js ''http://'')"
    "\<not> startsWith (js ''not-a-url'') (js ''https://'')"
    by (simp_all add: startsWith_def js_def)
  have "match r ?b = None" if "r \<in> set ([pattern1, pattern2] @ [pattern4])" for r
    using that
    by (auto simp: js_def pattern1_def pattern2_def pattern4_def phrase_def scheme_def
      lit_def canonicalize_def isSpace_def)
  then have nb: "\<forall>r\<in>set ([pattern1, pattern2] @ [pattern4]).
      \<forall>s. match r ?b = Some (Captured s) \<longrightarrow> \<not> isUrl (trim s)"
    by simp
  have b1: "fst (extractScanUrl ?b world0) \<noteq> Inr (Some (js ''not-a-url''))"
    using rejected_token_is_skipped [OF pb b3 sb, of world0] by blast
  have "fst (extractScanUrl ?b world0) =
      (case fst (jsonFallback (sidecarFile world0)) of Inr r \<Rightarrow> Inr r | Inl e \<Rightarrow> Inr None)"
    using rejected_token_is_skipped [OF pb b3 sb, of world0] nb by blast
  then have b2: "fst (extractScanUrl ?b world0) = Inr None"
    by (simp add: jsonFallback_def world0_def)
  have "fst (extractScanUrl ?b (world0\<lparr>sidecarFile := Parsed scenarioD\<rparr>)) =
      (case fst (jsonFallback (sidecarFile (world0\<lparr>sidecarFile := Parsed scenarioD\<rparr>))) of
         Inr r \<Rightarrow> Inr r | Inl e \<Rightarrow> Inr None)"
    using rejected_token_is_skipped
      [OF pb b3 sb, of "world0\<lparr>sidecarFile := Parsed scenarioD\<rparr>"] nb by blast
  then have b4: "fst (extractScanUrl ?b (world0\<lparr>sidecarFile := Parsed scenarioD\<rparr>))
      = Inr (Some (js ''http://x.test/y''))"
    by (simp add: jsonFallback_def scenarioD_def reportOf_def isUrl_def startsWith_def js_def)
  from a1 a2 a3 b3 b1 b2 b4 show ?thesis by blast
qed

section \<open>The collectors on the command line\<close>

lemma indexOf_mem: "indexOf xs x > -1 \<longleftrightarrow> x \<in> set xs"
proof (induction xs)
  case Nil
  show ?case by simp
next
  case (Cons y ys)
  have "indexOf ys x \<ge> -1" for ys :: "'a list"
    by (induction ys) (auto simp: Let_def)
  from this [of ys] Cons show ?case by (auto simp: Let_def)
qed

lemma cleanLoop_filter:
  "cleanLoop lower allowed inputArr =
     allowed @ filter (\<lambda>name. name \<in> set collectors)
       (map (\<lambda>input. lower (trim input)) (filter (\<lambda>input. input \<noteq> []) inputArr))"
  by (induction inputArr arbitrary: allowed) (simp_all add: indexOf_mem)

lemma length_collectors: "length collectors = 23"
  by (simp add: collectors_def)

lemma empty_no_collector: "[] \<notin> set collectors"
  by (simp add: collectors_def js_def)

text \<open>
  C10: \<^verbatim>\<open>cleanCollectors\<close> returns, in the order of the input, the trimmed and lower-cased
  form of exactly those entries that are not empty and whose trimmed and lower-cased form
  is one of the 23 names of the allowlist (\<^verbatim>\<open>toLowerCase\<close> maps the empty string to itself,
  and then the empty entries need no mention); nothing else is returned. So the flags
  \<^verbatim>\<open>--skip-collectors\<close> and \<^verbatim>\<open>--scan-collectors\<close> are either absent or followed by a
  comma-separated list of names of the allowlist, and they are the end of the options on
  the command line.
\<close>

theorem cleanCollectors_allowlist:
  "cleanCollectors lower inputArr =
     filter (\<lambda>name. name \<in> set collectors)
       (map (\<lambda>input. lower (trim input)) (filter (\<lambda>input. input \<noteq> []) inputArr)) \<and>
   (lower [] = [] \<longrightarrow>
      cleanCollectors lower inputArr =
        filter (\<lambda>name. name \<in> set collectors) (map (\<lambda>input. lower (trim input)) inputArr)) \<and>
   length collectors = 23 \<and>
   set (cleanCollectors lower inputArr) \<subseteq> set collectors \<and>
   (skipCollectorsAttr lower opts = [] \<or>
    (\<exists>names. names \<noteq> [] \<and> set names \<subseteq> set collectors \<and>
       skipCollectorsAttr lower opts = js ''--skip-collectors '' @ toString names @ js '' '')) \<and>
   (scanCollectorsAttr lower opts = [] \<or>
    (\<exists>names. names \<noteq> [] \<and> set names \<subseteq> set collectors \<and>
       scanCollectorsAttr lower opts = js ''--scan-collectors '' @ toString names @ js '' '')) \<and>
   (\<exists>before. extraCommands lower opts =
      before @ skipCollectorsAttr lower opts @ scanCollectorsAttr lower opts)"
proof -
  have eq: "cleanCollectors lower xs =
     filter (\<lambda>name. name \<in> set collectors)
       (map (\<lambda>input. lower (trim input)) (filter (\<lambda>input. input \<noteq> []) xs))" for xs
    by (simp add: cleanCollectors_def cleanLoop_filter)
  have sub: "set (cleanCollectors lower xs) \<subseteq> set collectors" for xs
    unfolding eq by auto
  have "filter (\<lambda>name. name \<in> set collectors)
       (map (\<lambda>input. lower (trim input)) (filter (\<lambda>input. input \<noteq> []) xs))
     = filter (\<lambda>name. name \<in> set collectors) (map (\<lambda>input. lower (trim input)) xs)"
    if "lower [] = []" for xs
    using that empty_no_collector by (induction xs) (auto simp: trim_def)
  with eq have eq': "lower [] = [] \<longrightarrow> cleanCollectors lower inputArr =
        filter (\<lambda>name. name \<in> set collectors) (map (\<lambda>input. lower (trim input)) inputArr)"
    by simp
  have skip: "skipCollectorsAttr lower opts = [] \<or>
    (\<exists>names. names \<noteq> [] \<and> set names \<subseteq> set collectors \<and>
       skipCollectorsAttr lower opts = js ''--skip-collectors '' @ toString names @ js '' '')"
    using sub [of "skipCollectors opts"] by (auto simp: skipCollectorsAttr_def Let_def)
  have scan: "scanCollectorsAttr lower opts = [] \<or>
    (\<exists>names. names \<noteq> [] \<and> set names \<subseteq> set collectors \<and>
       scanCollectorsAttr lower opts = js ''--scan-collectors '' @ toString names @ js '' '')"
    using sub [of "scanCollectors opts"] by (auto simp: scanCollectorsAttr_def Let_def)
  have cmd: "\<exists>before. extraCommands lower opts =
      before @ skipCollectorsAttr lower opts @ scanCollectorsAttr lower opts"
    by (simp add: extraCommands_def)
  from eq [of inputArr] eq' length_collectors sub [of inputArr] skip scan cmd show ?thesis
    by blast
qed

text \<open>The theorem at an input with an unknown name, an empty string and mixed case.\<close>

theorem cleanCollectors_example:
  "lowerAscii [] = [] \<and>
   cleanCollectors lowerAscii [js '' NPM '', js ''foo'', js '''', js ''Go Mod'', js ''yarn'']
     = [js ''npm'', js ''go mod'', js ''yarn'']"
  using cleanCollectors_allowlist
    [of lowerAscii "[js '' NPM '', js ''foo'', js '''', js ''Go Mod'', js ''yarn'']"]
  by (simp add: lowerAscii_def trim_def isSpace_def js_def collectors_def)

section \<open>The steps of runAction\<close>

lemma extractAndSet_fst:
  "fst (extractAndSet X w) = (case fst (extractScanUrl X w) of Inr r \<Rightarrow> r | Inl e \<Rightarrow> None)"
  by (simp add: extractAndSet_def extractStep_def split: prod.splits sum.splits)

lemma extractAndSet_fst_sidecar:
  "sidecarFile w' = sidecarFile w \<Longrightarrow> fst (extractAndSet X w') = fst (extractAndSet X w)"
  by (auto simp: extractAndSet_fst extractScanUrl_result split: option.splits)

lemma extractAndSet_found: "fst (extractAndSet X w) \<noteq> Some []"
proof
  assume "fst (extractAndSet X w) = Some []"
  then have "fst (extractScanUrl X w) = Inr (Some [])"
    by (auto simp: extractAndSet_fst split: sum.splits)
  then show False using extractScanUrl_isUrl isUrl_nonempty by blast
qed

lemma extractAndSet_snd:
  "\<exists>ms. snd (extractAndSet X w) =
     w\<lparr>info := info w @ ms,
       scanUrl := (case fst (extractAndSet X w) of Some u \<Rightarrow> Some u | None \<Rightarrow> scanUrl w)\<rparr>"
proof -
  obtain ms where ms: "snd (extractScanUrl X w) = w\<lparr>info := info w @ ms\<rparr>"
    using extractScanUrl_world by blast
  obtain r where r: "fst (extractScanUrl X w) = Inr r"
    using extractScanUrl_Inr by blast
  have "r \<noteq> Some []" using r extractScanUrl_isUrl isUrl_nonempty by blast
  with ms r have "snd (extractAndSet X w) =
     w\<lparr>info := info w @ ms,
       scanUrl := (case fst (extractAndSet X w) of Some u \<Rightarrow> Some u | None \<Rightarrow> scanUrl w)\<rparr>"
    by (cases "extractScanUrl X w"; cases r)
       (auto simp: extractAndSet_def extractStep_def)
  then show ?thesis ..
qed

lemma extractAndSet_fields [simp]:
  "sidecarFile (snd (extractAndSet X w)) = sidecarFile w"
  "resultFile (snd (extractAndSet X w)) = resultFile w"
  "consoleLines (snd (extractAndSet X w)) = consoleLines w"
  "failed (snd (extractAndSet X w)) = failed w"
  "comments (snd (extractAndSet X w)) = comments w"
  "artifacts (snd (extractAndSet X w)) = artifacts w"
  "issueRuns (snd (extractAndSet X w)) = issueRuns w"
  "scanUrl (snd (extractAndSet X w)) =
     (case fst (extractAndSet X w) of Some u \<Rightarrow> Some u | None \<Rightarrow> scanUrl w)"
  using extractAndSet_snd [of X w] by auto

lemma scenarioE_extract:
  "fst (extractScanUrl
      (js ''Scanning\<newline>'' @ js ''Full Report Details https://x.test/r\<newline>'') w)
      = Inr (Some (js ''https://x.test/r''))"
  by (simp add: extractScanUrl_result js_def patterns_def pattern1_def phrase_def
      scheme_def lit_def canonicalize_def isSpace_def trim_def isUrl_def startsWith_def)

lemma issues_resultFile:
  "createIssues opts \<Longrightarrow> resultFile (runAction opts env w) = resultFile w"
  by (simp add: runAction_def windowsIssues_def unixIssues_def setFailed_def decorate_def
      generateIssues_def upload_def split_def Let_def)

lemma writeResult_fields [simp]:
  "sidecarFile (writeResult f c w) = sidecarFile w"
  "resultFile (writeResult f c w) =
     (case f of Written \<Rightarrow> Some c | NotOpened \<Rightarrow> resultFile w
      | Truncated n \<Rightarrow> Some (take n c))"
  "consoleLines (writeResult f c w) =
     consoleLines w @ [if f = Written then FileSaved else ErrorWritingFile]"
  "failed (writeResult f c w) = failed w"
  "comments (writeResult f c w) = comments w"
  "artifacts (writeResult f c w) = artifacts w"
  "scanUrl (writeResult f c w) = scanUrl w"
  by (simp_all add: writeResult_def split: writeOutcome.splits)

lemma decorate_fields [simp]:
  "resultFile (decorate p b w) = resultFile w"
  "consoleLines (decorate p b w) = consoleLines w"
  "failed (decorate p b w) = failed w"
  "comments (decorate p b w) = comments w @ (if p then [b] else [])"
  "artifacts (decorate p b w) = artifacts w"
  "scanUrl (decorate p b w) = scanUrl w"
  by (simp_all add: decorate_def)

lemma setFailed_fields [simp]:
  "resultFile (setFailed w) = resultFile w"
  "consoleLines (setFailed w) = consoleLines w"
  "failed (setFailed w)"
  "comments (setFailed w) = comments w"
  "artifacts (setFailed w) = artifacts w"
  "scanUrl (setFailed w) = scanUrl w"
  by (simp_all add: setFailed_def)

text \<open>The statements behind the write of the result file, in a world \<open>w\<close>.\<close>

lemma windowsText_run:
  "windowsText opts env w =
     (let output = fst (accumulate (chunks env) ([], []));
          combinedOutput = output @ snd (accumulate (chunks env) ([], []));
          w1 = (if exitCode env = Some 0 then snd (extractAndSet output w)
                else snd (extractAndSet combinedOutput
                  (if positive (exitCode env) \<and> breakBuild opts then setFailed w else w)));
          w2 = writeResult (writeFileSync env) output w1
      in if uploadThrows env then w2
         else decorate (pullRequest env) (Details output)
                (w2\<lparr>artifacts := artifacts w2 @ [js ''scaResults.txt'']\<rparr>))"
  by (simp add: windowsText_def upload_def split_def Let_def)

lemma unixText_run:
  "unixText opts env w =
     (let output = fst (accumulate (chunks env) ([], []));
          combinedOutput = output @ snd (accumulate (chunks env) ([], []));
          w2 = writeResult (writeFileSync env) combinedOutput
                 (snd (extractAndSet combinedOutput w));
          fileOutput = (case resultFile w2 of
                          Some fileContent \<Rightarrow>
                            if fileContent \<noteq> [] \<and> length fileContent > length combinedOutput
                            then fileContent else combinedOutput
                        | None \<Rightarrow> combinedOutput);
          w3 = (if fst (extractAndSet combinedOutput w) = None
                then snd (extractAndSet fileOutput w2) else w2)
      in if uploadThrows env then w3
         else (let w5 = decorate (pullRequest env) (DetailsWithCode (exitCode env) output)
                          (w3\<lparr>artifacts := artifacts w3 @ [js ''scaResults.txt'']\<rparr>)
               in if positive (exitCode env) \<and> breakBuild opts then setFailed w5 else w5))"
  by (simp add: unixText_def upload_def split_def Let_def extractAndSet_found)

lemma text_run_fields:
  assumes "\<not> createIssues opts"
  shows "resultFile (runAction opts env w) =
      (case writeFileSync env of
         Written \<Rightarrow>
           Some (if windows env then fst (accumulate (chunks env) ([], []))
                 else fst (accumulate (chunks env) ([], [])) @
                      snd (accumulate (chunks env) ([], [])))
       | NotOpened \<Rightarrow> resultFile w
       | Truncated n \<Rightarrow>
           Some (take n (if windows env then fst (accumulate (chunks env) ([], []))
                         else fst (accumulate (chunks env) ([], [])) @
                              snd (accumulate (chunks env) ([], [])))))"
    and "consoleLines (runAction opts env w) =
      consoleLines w @ [if writeFileSync env = Written then FileSaved else ErrorWritingFile]"
    and "artifacts (runAction opts env w) =
      artifacts w @ (if uploadThrows env then [] else [js ''scaResults.txt''])"
    and "failed (runAction opts env w) =
      (failed w \<or> positive (exitCode env) \<and> breakBuild opts \<and>
         (windows env \<or> \<not> uploadThrows env))"
    and "comments (runAction opts env w) =
      comments w @ (if pullRequest env \<and> \<not> uploadThrows env
         then [if windows env then Details (fst (accumulate (chunks env) ([], [])))
               else DetailsWithCode (exitCode env) (fst (accumulate (chunks env) ([], [])))]
         else [])"
proof -
  show "resultFile (runAction opts env w) =
      (case writeFileSync env of
         Written \<Rightarrow>
           Some (if windows env then fst (accumulate (chunks env) ([], []))
                 else fst (accumulate (chunks env) ([], [])) @
                      snd (accumulate (chunks env) ([], [])))
       | NotOpened \<Rightarrow> resultFile w
       | Truncated n \<Rightarrow>
           Some (take n (if windows env then fst (accumulate (chunks env) ([], []))
                         else fst (accumulate (chunks env) ([], [])) @
                              snd (accumulate (chunks env) ([], [])))))"
    using assms
    by (cases "writeFileSync env")
       (simp_all add: runAction_def windowsText_run unixText_run Let_def)
  show "consoleLines (runAction opts env w) =
      consoleLines w @ [if writeFileSync env = Written then FileSaved else ErrorWritingFile]"
    using assms by (simp add: runAction_def windowsText_run unixText_run Let_def)
  show "artifacts (runAction opts env w) =
      artifacts w @ (if uploadThrows env then [] else [js ''scaResults.txt''])"
    using assms by (simp add: runAction_def windowsText_run unixText_run Let_def)
  show "failed (runAction opts env w) =
      (failed w \<or> positive (exitCode env) \<and> breakBuild opts \<and>
         (windows env \<or> \<not> uploadThrows env))"
    using assms by (auto simp: runAction_def windowsText_run unixText_run Let_def)
  show "comments (runAction opts env w) =
      comments w @ (if pullRequest env \<and> \<not> uploadThrows env
         then [if windows env then Details (fst (accumulate (chunks env) ([], [])))
               else DetailsWithCode (exitCode env) (fst (accumulate (chunks env) ([], [])))]
         else [])"
    using assms by (simp add: runAction_def windowsText_run unixText_run Let_def)
qed

lemma windowsText_scanUrl:
  "scanUrl (windowsText opts env w) =
     (case fst (extractAndSet
          (if exitCode env = Some 0 then fst (accumulate (chunks env) ([], []))
           else fst (accumulate (chunks env) ([], [])) @ snd (accumulate (chunks env) ([], [])))
          w) of
        Some u \<Rightarrow> Some u
      | None \<Rightarrow> scanUrl w)"
proof -
  have "fst (extractAndSet X (setFailed w)) = fst (extractAndSet X w)" for X
    by (rule extractAndSet_fst_sidecar) (simp add: setFailed_def)
  then show ?thesis by (simp add: windowsText_run Let_def split: option.splits)
qed

lemma unixText_scanUrl_found:
  assumes "fst (extractAndSet
      (fst (accumulate (chunks env) ([], [])) @ snd (accumulate (chunks env) ([], []))) w)
      = Some u"
  shows "scanUrl (unixText opts env w) = Some u"
  using assms by (simp add: unixText_run Let_def)

text \<open>
  When the captured output has no URL and the file was opened for writing, the second
  search is one of the captured output again, and finds nothing.
\<close>

lemma unixText_scanUrl_none:
  assumes "writeFileSync env \<noteq> NotOpened"
    and "fst (extractAndSet
      (fst (accumulate (chunks env) ([], [])) @ snd (accumulate (chunks env) ([], []))) w)
      = None"
  shows "scanUrl (unixText opts env w) = scanUrl w"
proof -
  define c where
    "c = fst (accumulate (chunks env) ([], [])) @ snd (accumulate (chunks env) ([], []))"
  define w2 where "w2 = writeResult (writeFileSync env) c (snd (extractAndSet c w))"
  have none: "fst (extractAndSet c w) = None" using assms(2) by (simp add: c_def)
  have "fst (extractAndSet c w2) = fst (extractAndSet c w)"
    by (rule extractAndSet_fst_sidecar) (simp add: w2_def)
  with none have again: "fst (extractAndSet c w2) = None" by simp
  have "resultFile w2 = Some c \<or> (\<exists>n. resultFile w2 = Some (take n c))"
    using assms(1) by (cases "writeFileSync env") (auto simp: w2_def)
  then have reread: "(case resultFile w2 of
      Some fileContent \<Rightarrow>
        if fileContent \<noteq> [] \<and> length fileContent > length c then fileContent else c
    | None \<Rightarrow> c) = c"
    by auto
  have "scanUrl (snd (extractAndSet c w2)) = scanUrl w"
    using again none by (simp add: w2_def)
  then show ?thesis
    unfolding unixText_run Let_def c_def [symmetric] w2_def [symmetric] reread
    using none by simp
qed

section \<open>A scan that fails\<close>

text \<open>
  On a Windows runner with \<^verbatim>\<open>createIssues\<close>, a scan that fails never sets \<^verbatim>\<open>scan-url\<close>,
  whatever the scanner wrote.
\<close>

lemma windowsIssues_failed_scan:
  assumes "windows env" "createIssues opts" "exitCode env \<noteq> Some 0"
  shows "scanUrl (runAction opts env w) = scanUrl w"
proof -
  have "fst (extractAndSet [] v) = None" for v
    by (simp add: extractAndSet_fst extractScanUrl_result)
  with assms show ?thesis
    by (simp add: runAction_def windowsIssues_def generateIssues_def upload_def
        split_def Let_def)
qed

text \<open>
  On the three other paths, a URL found in what the scanner wrote to standard output
  followed by what it wrote to standard error is set as \<^verbatim>\<open>scan-url\<close>.
\<close>

lemma other_paths_failed_scan:
  assumes "\<not> (windows env \<and> createIssues opts)" "exitCode env \<noteq> Some 0"
    and "fst (extractAndSet
      (fst (accumulate (chunks env) ([], [])) @ snd (accumulate (chunks env) ([], []))) w)
      = Some u"
  shows "scanUrl (runAction opts env w) = Some u"
proof -
  let ?c = "fst (accumulate (chunks env) ([], [])) @ snd (accumulate (chunks env) ([], []))"
  consider (wt) "windows env" "\<not> createIssues opts"
    | (ui) "\<not> windows env" "createIssues opts"
    | (ut) "\<not> windows env" "\<not> createIssues opts"
    using assms(1) by blast
  then show ?thesis
  proof cases
    case wt
    with assms(2,3) show ?thesis by (simp add: runAction_def windowsText_scanUrl)
  next
    case ui
    with assms(3) show ?thesis
      by (simp add: runAction_def unixIssues_def generateIssues_def upload_def
          split_def Let_def)
  next
    case ut
    with assms(3) show ?thesis by (simp add: runAction_def unixText_scanUrl_found)
  qed
qed

text \<open>
  C7 at Scenario E: on a Windows runner with \<^verbatim>\<open>createIssues\<close>, the \<^verbatim>\<open>catch\<close> block of
  lines 158 to 171 calls \<^verbatim>\<open>extractScanUrl\<close> with the variable \<^verbatim>\<open>output\<close>, which is still the
  empty string there, and the output \<^verbatim>\<open>scan-url\<close> is not set. The three other paths of
  \<^verbatim>\<open>runAction\<close> search what the scanner wrote to both streams and set it.
\<close>

theorem windows_issues_failed_scan_has_no_url:
  "scanUrl (runAction (options0\<lparr>createIssues := True\<rparr>) scenarioE world0) = None \<and>
   scanUrl (runAction options0 scenarioE world0) = Some (js ''https://x.test/r'') \<and>
   scanUrl (runAction (options0\<lparr>createIssues := True\<rparr>) (scenarioE\<lparr>windows := False\<rparr>) world0)
     = Some (js ''https://x.test/r'') \<and>
   scanUrl (runAction options0 (scenarioE\<lparr>windows := False\<rparr>) world0)
     = Some (js ''https://x.test/r'')"
proof -
  note x = scenarioE_extract
  have n: "js ''https://x.test/r'' \<noteq> []" by (simp add: js_def)
  have e: "fst (extractScanUrl [] w) = Inr None" for w
    by (simp add: extractScanUrl_result)
  show ?thesis
    by (simp add: runAction_def windowsIssues_def windowsText_def unixIssues_def unixText_def
        options0_def scenarioE_def world0_def extractAndSet_fst x e n Let_def
        breakBuild_def setFailed_def writeResult_def decorate_def generateIssues_def
        upload_def split_def)
qed

section \<open>The result file\<close>

text \<open>
  C8, as stated, fails: with \<^verbatim>\<open>createIssues\<close> no statement of \<^verbatim>\<open>runAction\<close> writes the
  result file. After the run below there is no result file, and no line about one.
\<close>

theorem no_result_file_with_createIssues:
  "resultFile (runAction (options0\<lparr>createIssues := True\<rparr>) (scenarioE\<lparr>windows := False\<rparr>) world0)
     = None \<and>
   consoleLines (runAction (options0\<lparr>createIssues := True\<rparr>) (scenarioE\<lparr>windows := False\<rparr>) world0)
     = []"
  by (simp add: runAction_def unixIssues_def options0_def scenarioE_def world0_def
      setFailed_def decorate_def generateIssues_def upload_def split_def)

text \<open>
  C8, amended. With \<^verbatim>\<open>createIssues\<close> the result file is left as it was and nothing is
  written about it. Without it, \<^verbatim>\<open>runAction\<close> writes the result file once when the scanner
  has ended: the text written starts with the captured standard output and goes on with
  captured standard error, all of it on another runner than Windows; the file holds the
  text when the write returns, and is left as it was or holds a part of the text from
  its start when the write throws. A write that throws is written to the console and the
  run goes on as after a write that returns: a URL that \<^verbatim>\<open>extractScanUrl\<close> finds in the
  captured output is the output \<^verbatim>\<open>scan-url\<close>, \<^verbatim>\<open>uploadArtifact\<close> is called, and the failure
  status and the pull-request comment depend on the exit code, the options and the
  upload as they do after a write that returns.
\<close>

theorem result_file_write_is_tolerated:
  "(createIssues opts \<longrightarrow>
      resultFile (runAction opts env w) = resultFile w \<and>
      consoleLines (runAction opts env w) = consoleLines w) \<and>
   (\<not> createIssues opts \<longrightarrow>
      (\<exists>content e e'.
         content = fst (accumulate (chunks env) ([], [])) @ e \<and>
         snd (accumulate (chunks env) ([], [])) = e @ e' \<and>
         (\<not> windows env \<longrightarrow> e' = []) \<and>
         resultFile (runAction opts env w) =
           (case writeFileSync env of
              Written \<Rightarrow> Some content
            | NotOpened \<Rightarrow> resultFile w
            | Truncated n \<Rightarrow> Some (take n content))) \<and>
      consoleLines (runAction opts env w) =
        consoleLines w @ [if writeFileSync env = Written then FileSaved else ErrorWritingFile] \<and>
      (\<forall>u. fst (extractAndSet
                (if windows env \<and> exitCode env = Some 0
                 then fst (accumulate (chunks env) ([], []))
                 else fst (accumulate (chunks env) ([], [])) @
                      snd (accumulate (chunks env) ([], []))) w) = Some u \<longrightarrow>
           scanUrl (runAction opts env w) = Some u) \<and>
      artifacts (runAction opts env w) =
        artifacts w @ (if uploadThrows env then [] else [js ''scaResults.txt'']) \<and>
      failed (runAction opts env w) =
        (failed w \<or> positive (exitCode env) \<and> breakBuild opts \<and>
           (windows env \<or> \<not> uploadThrows env)) \<and>
      comments (runAction opts env w) =
        comments w @ (if pullRequest env \<and> \<not> uploadThrows env
           then [if windows env then Details (fst (accumulate (chunks env) ([], [])))
                 else DetailsWithCode (exitCode env) (fst (accumulate (chunks env) ([], [])))]
           else []))"
proof (intro conjI impI)
  assume c: "createIssues opts"
  then show "resultFile (runAction opts env w) = resultFile w" by (rule issues_resultFile)
  from c show "consoleLines (runAction opts env w) = consoleLines w"
    by (simp add: runAction_def windowsIssues_def unixIssues_def setFailed_def decorate_def
      generateIssues_def upload_def split_def Let_def)
next
  assume n: "\<not> createIssues opts"
  let ?out = "fst (accumulate (chunks env) ([], []))"
  let ?err = "snd (accumulate (chunks env) ([], []))"
  let ?e = "if windows env then [] else ?err"
  let ?e' = "if windows env then ?err else []"
  have "resultFile (runAction opts env w) =
      (case writeFileSync env of
         Written \<Rightarrow> Some (?out @ ?e)
       | NotOpened \<Rightarrow> resultFile w
       | Truncated n \<Rightarrow> Some (take n (?out @ ?e)))"
    unfolding text_run_fields(1) [OF n]
    by (cases "windows env"; cases "writeFileSync env") simp_all
  moreover have "?err = ?e @ ?e'" "\<not> windows env \<longrightarrow> ?e' = []" by simp_all
  ultimately show "\<exists>content e e'.
         content = ?out @ e \<and> ?err = e @ e' \<and> (\<not> windows env \<longrightarrow> e' = []) \<and>
         resultFile (runAction opts env w) =
           (case writeFileSync env of
              Written \<Rightarrow> Some content
            | NotOpened \<Rightarrow> resultFile w
            | Truncated n \<Rightarrow> Some (take n content))"
    by blast
  show "consoleLines (runAction opts env w) =
      consoleLines w @ [if writeFileSync env = Written then FileSaved else ErrorWritingFile]"
    by (rule text_run_fields(2) [OF n])
  show "\<forall>u. fst (extractAndSet
                (if windows env \<and> exitCode env = Some 0 then ?out else ?out @ ?err) w)
              = Some u \<longrightarrow>
           scanUrl (runAction opts env w) = Some u"
  proof (intro allI impI)
    fix u
    assume u: "fst (extractAndSet
        (if windows env \<and> exitCode env = Some 0 then ?out else ?out @ ?err) w) = Some u"
    show "scanUrl (runAction opts env w) = Some u"
    proof (cases "windows env")
      case True
      with n u show ?thesis by (simp add: runAction_def windowsText_scanUrl split: if_splits)
    next
      case False
      with u have "scanUrl (unixText opts env w) = Some u"
        by (intro unixText_scanUrl_found) simp
      with n False show ?thesis by (simp add: runAction_def)
    qed
  qed
  show "artifacts (runAction opts env w) =
      artifacts w @ (if uploadThrows env then [] else [js ''scaResults.txt''])"
    by (rule text_run_fields(3) [OF n])
  show "failed (runAction opts env w) =
      (failed w \<or> positive (exitCode env) \<and> breakBuild opts \<and>
         (windows env \<or> \<not> uploadThrows env))"
    by (rule text_run_fields(4) [OF n])
  show "comments (runAction opts env w) =
      comments w @ (if pullRequest env \<and> \<not> uploadThrows env
         then [if windows env then Details ?out else DetailsWithCode (exitCode env) ?out]
         else [])"
    by (rule text_run_fields(5) [OF n])
qed

text \<open>
  The theorem at Scenario E on another runner than Windows: with a write that throws
  before the file is opened, over a result file of an earlier run; with a write that
  throws after four code units; and with a write that returns.
\<close>

theorem failed_write_example:
  "resultFile (runAction options0 (scenarioE\<lparr>windows := False, writeFileSync := NotOpened\<rparr>)
      (world0\<lparr>resultFile := Some (js ''old'')\<rparr>)) = Some (js ''old'') \<and>
   consoleLines (runAction options0 (scenarioE\<lparr>windows := False, writeFileSync := NotOpened\<rparr>)
      (world0\<lparr>resultFile := Some (js ''old'')\<rparr>)) = [ErrorWritingFile] \<and>
   scanUrl (runAction options0 (scenarioE\<lparr>windows := False, writeFileSync := NotOpened\<rparr>)
      (world0\<lparr>resultFile := Some (js ''old'')\<rparr>)) = Some (js ''https://x.test/r'') \<and>
   artifacts (runAction options0 (scenarioE\<lparr>windows := False, writeFileSync := NotOpened\<rparr>)
      (world0\<lparr>resultFile := Some (js ''old'')\<rparr>)) = [js ''scaResults.txt''] \<and>
   failed (runAction options0 (scenarioE\<lparr>windows := False, writeFileSync := NotOpened\<rparr>)
      (world0\<lparr>resultFile := Some (js ''old'')\<rparr>)) \<and>
   resultFile (runAction options0 (scenarioE\<lparr>windows := False, writeFileSync := Truncated 4\<rparr>)
      world0) = Some (js ''Scan'') \<and>
   resultFile (runAction options0 (scenarioE\<lparr>windows := False\<rparr>) world0)
     = Some (js ''Scanning\<newline>'' @ js ''Full Report Details https://x.test/r\<newline>'')"
proof -
  let ?old = "world0\<lparr>resultFile := Some (js ''old'')\<rparr>"
  have acc: "accumulate (chunks scenarioE) ([], []) =
      (js ''Scanning\<newline>'', js ''Full Report Details https://x.test/r\<newline>'')"
    by (simp add: scenarioE_def)
  have x: "fst (extractAndSet
      (js ''Scanning\<newline>'' @ js ''Full Report Details https://x.test/r\<newline>'') ?old)
      = Some (js ''https://x.test/r'')"
    by (simp add: extractAndSet_fst scenarioE_extract)
  have o: "\<not> createIssues options0" "breakBuild options0"
    by (simp_all add: options0_def breakBuild_def)
  have e: "exitCode scenarioE = Some 2" "\<not> uploadThrows scenarioE"
    by (simp_all add: scenarioE_def)
  have w: "resultFile world0 = None" "consoleLines world0 = []" "artifacts world0 = []"
    by (simp_all add: world0_def)
  have four: "take 4 (js ''Scanning\<newline>'' @ js ''Full Report Details https://x.test/r\<newline>'')
      = js ''Scan''"
    by (simp add: js_def)
  from result_file_write_is_tolerated
    [of options0 "scenarioE\<lparr>windows := False, writeFileSync := NotOpened\<rparr>" ?old]
  have 1: "resultFile (runAction options0
        (scenarioE\<lparr>windows := False, writeFileSync := NotOpened\<rparr>) ?old) = Some (js ''old'')"
    and 2: "consoleLines (runAction options0
        (scenarioE\<lparr>windows := False, writeFileSync := NotOpened\<rparr>) ?old) = [ErrorWritingFile]"
    and 3: "scanUrl (runAction options0
        (scenarioE\<lparr>windows := False, writeFileSync := NotOpened\<rparr>) ?old)
        = Some (js ''https://x.test/r'')"
    and 4: "artifacts (runAction options0
        (scenarioE\<lparr>windows := False, writeFileSync := NotOpened\<rparr>) ?old)
        = [js ''scaResults.txt'']"
    and 5: "failed (runAction options0
        (scenarioE\<lparr>windows := False, writeFileSync := NotOpened\<rparr>) ?old)"
    using o e w acc x by auto
  from result_file_write_is_tolerated
    [of options0 "scenarioE\<lparr>windows := False, writeFileSync := Truncated 4\<rparr>" world0]
  have 6: "resultFile (runAction options0
        (scenarioE\<lparr>windows := False, writeFileSync := Truncated 4\<rparr>) world0) = Some (js ''Scan'')"
    using o acc four by auto
  from result_file_write_is_tolerated [of options0 "scenarioE\<lparr>windows := False\<rparr>" world0]
  have 7: "resultFile (runAction options0 (scenarioE\<lparr>windows := False\<rparr>) world0)
     = Some (js ''Scanning\<newline>'' @ js ''Full Report Details https://x.test/r\<newline>'')"
    using o acc by (auto simp: scenarioE_def)
  from 1 2 3 4 5 6 7 show ?thesis by blast
qed

end
